theory Spec2Isabelle
  imports Complex_Main "HOL-Library.Sublist" "HOL-Library.Multiset"
begin

section \<open>Text primitives of the email processor\<close>

text \<open>
  The program is \<^verbatim>\<open>email_processor.py\<close>, class \<^verbatim>\<open>CLISupportSystem\<close>. Python strings are
  modelled as \<^typ>\<open>string\<close>, a character being the code point of its number, from 0 to
  255 (ASCII and Latin-1). On these code points \<open>py_lower\<close>, \<open>is_space\<close> and \<open>is_word\<close>
  are what \<^verbatim>\<open>str.lower\<close>, \<^verbatim>\<open>str.isspace\<close> and the class \<^verbatim>\<open>\w\<close> of \<^verbatim>\<open>re\<close> are in Python.
\<close>

text \<open>The characters that \<^verbatim>\<open>str.lower()\<close> changes: \<^verbatim>\<open>A\<close> to \<^verbatim>\<open>Z\<close>, and the Latin-1 capitals
  0xC0 to 0xD6 and 0xD8 to 0xDE. Each goes to the character 32 places further.\<close>

definition is_upper :: "char \<Rightarrow> bool" where
  "is_upper c =
     (let n = (of_char c :: nat)
      in (65 \<le> n \<and> n \<le> 90) \<or> (192 \<le> n \<and> n \<le> 214) \<or> (216 \<le> n \<and> n \<le> 222))"

definition lower_char :: "char \<Rightarrow> char" where
  "lower_char c = (if is_upper c then char_of ((of_char c :: nat) + 32) else c)"

text \<open>\<^verbatim>\<open>str.lower()\<close>.\<close>

definition py_lower :: "string \<Rightarrow> string" where
  "py_lower s = map lower_char s"

text \<open>Whitespace as \<^verbatim>\<open>str.strip()\<close> sees it: tab, newline, VT, FF, CR, FS, GS, RS, US, space,
  and in Latin-1 the next-line character 0x85 and the no-break space 0xA0.\<close>

definition is_space :: "char \<Rightarrow> bool" where
  "is_space c =
     (let n = (of_char c :: nat)
      in (9 \<le> n \<and> n \<le> 13) \<or> (28 \<le> n \<and> n \<le> 32) \<or> n = 133 \<or> n = 160)"

text \<open>\<^verbatim>\<open>str.strip()\<close>.\<close>

definition py_strip :: "string \<Rightarrow> string" where
  "py_strip s = rev (dropWhile is_space (rev (dropWhile is_space s)))"

text \<open>\<^verbatim>\<open>keyword in text\<close> on strings: \<open>keyword\<close> occurs as a contiguous substring.\<close>

fun py_in :: "string \<Rightarrow> string \<Rightarrow> bool" where
  "py_in k [] = (k = [])"
| "py_in k (c # cs) = (prefix k (c # cs) \<or> py_in k cs)"

text \<open>\<^verbatim>\<open>any(keyword in text for keyword in keywords)\<close>.\<close>

definition any_in :: "string list \<Rightarrow> string \<Rightarrow> bool" where
  "any_in keywords t = list_ex (\<lambda>keyword. py_in keyword t) keywords"

text \<open>The f-string \<^verbatim>\<open>f"{a} {b}"\<close>.\<close>

definition fmt2 :: "string \<Rightarrow> string \<Rightarrow> string" where
  "fmt2 a b = a @ '' '' @ b"

subsection \<open>The regular expressions\<close>

text \<open>
  Both patterns of \<^verbatim>\<open>extract_information\<close> are sequences of word boundaries \<^verbatim>\<open>\b\<close>,
  literal characters and greedy repetitions of a character class
  (\<^verbatim>\<open>+\<close>, \<^verbatim>\<open>?\<close>, \<^verbatim>\<open>{n}\<close>, \<^verbatim>\<open>{n,}\<close>). The matcher below is the backtracking search of
  Python's \<^verbatim>\<open>re\<close> on such patterns: a repetition takes as many characters as it can and
  gives them back one at a time until the rest of the pattern matches.
\<close>

datatype cls_item = Rng char char | Ch char

fun in_item :: "char \<Rightarrow> cls_item \<Rightarrow> bool" where
  "in_item c (Rng a b) = ((of_char a :: nat) \<le> of_char c \<and> (of_char c :: nat) \<le> of_char b)"
| "in_item c (Ch a) = (c = a)"

definition in_class :: "cls_item list \<Rightarrow> char \<Rightarrow> bool" where
  "in_class cl c = list_ex (in_item c) cl"

datatype atom = WordB | Lit char | Rep "cls_item list" nat "nat option"

text \<open>\<^verbatim>\<open>\w\<close> in a pattern on \<^verbatim>\<open>str\<close>: the alphanumeric characters and the underscore. In
  ASCII these are letters and digits; in Latin-1 the letters 0xAA, 0xB5, 0xBA, 0xC0 to
  0xD6, 0xD8 to 0xF6 and 0xF8 to 0xFF, and the numeric characters 0xB2, 0xB3, 0xB9 and
  0xBC to 0xBE.\<close>

definition is_word :: "char \<Rightarrow> bool" where
  "is_word c =
     in_class [Rng CHR ''a'' CHR ''z'', Rng CHR ''A'' CHR ''Z'', Rng CHR ''0'' CHR ''9'',
               Ch CHR ''_'', Ch (CHR 0xAA), Rng (CHR 0xB2) (CHR 0xB3), Ch (CHR 0xB5),
               Rng (CHR 0xB9) (CHR 0xBA), Rng (CHR 0xBC) (CHR 0xBE),
               Rng (CHR 0xC0) (CHR 0xD6), Rng (CHR 0xD8) (CHR 0xF6),
               Rng (CHR 0xF8) (CHR 0xFF)] c"

text \<open>\<^verbatim>\<open>\b\<close>: exactly one of the character before and the character after is a word
  character; the two ends of the text count as non-word. The digits of \<^verbatim>\<open>\d\<close> are
  \<^verbatim>\<open>0\<close> to \<^verbatim>\<open>9\<close> only, also in Latin-1.\<close>

definition word_boundary :: "char option \<Rightarrow> string \<Rightarrow> bool" where
  "word_boundary prev s =
     ((case prev of None \<Rightarrow> False | Some c \<Rightarrow> is_word c)
      \<noteq> (case s of [] \<Rightarrow> False | c # _ \<Rightarrow> is_word c))"

fun first_some :: "('a \<Rightarrow> 'b option) \<Rightarrow> 'a list \<Rightarrow> 'b option" where
  "first_some f [] = None"
| "first_some f (x # xs) = (case f x of Some y \<Rightarrow> Some y | None \<Rightarrow> first_some f xs)"

definition prev_after :: "char option \<Rightarrow> string \<Rightarrow> nat \<Rightarrow> char option" where
  "prev_after prev s k = (if k = 0 then prev else Some (s ! (k - 1)))"

text \<open>\<open>rmatch p prev s\<close>: the pattern \<open>p\<close> tried at the start of \<open>s\<close>, with \<open>prev\<close> the
  character before it; the result is the number of characters of the match.\<close>

fun rmatch :: "atom list \<Rightarrow> char option \<Rightarrow> string \<Rightarrow> nat option" where
  "rmatch [] prev s = Some 0"
| "rmatch (WordB # p) prev s = (if word_boundary prev s then rmatch p prev s else None)"
| "rmatch (Lit c # p) prev s =
     (case s of [] \<Rightarrow> None
      | x # xs \<Rightarrow> if x = c then map_option Suc (rmatch p (Some x) xs) else None)"
| "rmatch (Rep cl lo hi # p) prev s =
     (let avail = length (takeWhile (in_class cl) s);
          most = (case hi of None \<Rightarrow> avail | Some h \<Rightarrow> min h avail)
      in first_some (\<lambda>k. map_option ((+) k) (rmatch p (prev_after prev s k) (drop k s)))
           (rev [lo ..< Suc most]))"

text \<open>\<^verbatim>\<open>re.findall(pattern, text)\<close> for a pattern without groups: the matches from left to
  right, each search starting where the previous match ended.\<close>

function findall :: "atom list \<Rightarrow> char option \<Rightarrow> string \<Rightarrow> string list" where
  "findall p prev [] = (case rmatch p prev [] of None \<Rightarrow> [] | Some _ \<Rightarrow> [[]])"
| "findall p prev (x # xs) =
     (case rmatch p prev (x # xs) of
        None \<Rightarrow> findall p (Some x) xs
      | Some 0 \<Rightarrow> [] # findall p (Some x) xs
      | Some (Suc k) \<Rightarrow>
          take (Suc k) (x # xs) # findall p (Some (last (take (Suc k) (x # xs)))) (drop k xs))"
  by pat_completeness auto
termination
  by (relation "measure (\<lambda>(p, prev, s). length s)") auto

definition re_findall :: "atom list \<Rightarrow> string \<Rightarrow> string list" where
  "re_findall p s = findall p None s"

definition digit :: "cls_item list" where
  "digit = [Rng CHR ''0'' CHR ''9'']"

text \<open>\<^verbatim>\<open>r'\b\d{3}[-.]?\d{3}[-.]?\d{4}\b'\<close>\<close>

definition phone_pattern :: "atom list" where
  "phone_pattern =
     [WordB, Rep digit 3 (Some 3), Rep [Ch CHR ''-'', Ch CHR ''.''] 0 (Some 1),
      Rep digit 3 (Some 3), Rep [Ch CHR ''-'', Ch CHR ''.''] 0 (Some 1),
      Rep digit 4 (Some 4), WordB]"

text \<open>\<^verbatim>\<open>r'\b[A-Za-z0-9._%+-]+@[A-Za-z0-9.-]+\.[A-Z|a-z]{2,}\b'\<close>\<close>

definition email_pattern :: "atom list" where
  "email_pattern =
     [WordB,
      Rep [Rng CHR ''A'' CHR ''Z'', Rng CHR ''a'' CHR ''z'', Rng CHR ''0'' CHR ''9'',
           Ch CHR ''.'', Ch CHR ''_'', Ch CHR ''%'', Ch CHR ''+'', Ch CHR ''-''] 1 None,
      Lit CHR ''@'',
      Rep [Rng CHR ''A'' CHR ''Z'', Rng CHR ''a'' CHR ''z'', Rng CHR ''0'' CHR ''9'',
           Ch CHR ''.'', Ch CHR ''-''] 1 None,
      Lit CHR ''.'',
      Rep [Rng CHR ''A'' CHR ''Z'', Ch CHR ''|'', Rng CHR ''a'' CHR ''z''] 2 None,
      WordB]"

text \<open>\<^verbatim>\<open>re.split(r'[.!?]', text)\<close>: the pieces between the terminators, empty pieces
  included.\<close>

definition is_terminator :: "char \<Rightarrow> bool" where
  "is_terminator c = (c = CHR ''.'' \<or> c = CHR ''!'' \<or> c = CHR ''?'')"

fun re_split :: "string \<Rightarrow> string list" where
  "re_split [] = [[]]"
| "re_split (c # cs) =
     (if is_terminator c then [] # re_split cs
      else (case re_split cs of [] \<Rightarrow> [[c]] | h # t \<Rightarrow> (c # h) # t))"

section \<open>Data model\<close>

text \<open>An email as \<^verbatim>\<open>load_emails\<close> builds it. \<open>sent_date\<close> and every clock reading are
  counted in microseconds, the resolution of \<^verbatim>\<open>datetime\<close>.\<close>

record email =
  sender :: string
  subject :: string
  body :: string
  sent_date :: int
  email_id :: string

datatype sentiment = Positive | Negative | Neutral

datatype priority = Urgent | NotUrgent

datatype status = Pending | Resolved

datatype error = TypeError | ValueError | IndexError | OutOfRange

record extracted_info =
  phone_numbers :: "string list"
  alternate_emails :: "string list"
  requirements :: "string list"
  ei_sentiment :: sentiment

text \<open>The dictionary \<^verbatim>\<open>processed_email\<close>: the fields of the email (\<^verbatim>\<open>**email\<close>) and the
  results of the analysis.\<close>

record processed_email = email +
  pe_sentiment :: sentiment
  priority :: priority
  urgency_score :: int
  category :: string
  extracted_info :: extracted_info
  generated_response :: string
  status :: status
  processing_id :: nat

section \<open>Sentiment and priority\<close>

text \<open>\<^verbatim>\<open>analyze_sentiment\<close>. The analyzer \<^verbatim>\<open>self.sia\<close> is a library object; its compound
  score is the parameter \<open>sia\<close>. A compound score is a float, and for a float \<open>x\<close> the
  comparisons with the float literals \<^verbatim>\<open>0.05\<close> and \<^verbatim>\<open>-0.05\<close> agree with the comparisons
  with the rationals \<open>1/20\<close> and \<open>-1/20\<close>.\<close>

definition analyze_sentiment :: "(string \<Rightarrow> rat) \<Rightarrow> string \<Rightarrow> sentiment \<times> rat" where
  "analyze_sentiment sia text =
     (let compound = sia text
      in if compound \<ge> 5 / 100 then (Positive, compound)
         else if compound \<le> - (5 / 100) then (Negative, compound)
         else (Neutral, compound))"

definition priority_keywords :: "string list" where
  "priority_keywords =
     [''urgent'', ''critical'', ''immediately'', ''emergency'',
      ''cannot access'', ''blocked'', ''down'', ''broken'', ''not working'']"

text \<open>\<^verbatim>\<open>determine_priority\<close>; \<open>now\<close> is the reading of \<^verbatim>\<open>datetime.now()\<close>. The age
  \<^verbatim>\<open>total_seconds() / 3600\<close> is computed in floating point; at the microsecond resolution of
  the two dates its comparisons with 1, 4 and 12 agree with the exact ones.\<close>

definition determine_priority :: "(string \<Rightarrow> rat) \<Rightarrow> int \<Rightarrow> 'a email_scheme \<Rightarrow> priority \<times> int" where
  "determine_priority sia now email =
     (let text = py_lower (fmt2 (subject email) (body email));
          urgency_score0 = sum_list (map (\<lambda>keyword. (1::int))
                              (filter (\<lambda>keyword. py_in keyword text) priority_keywords));
          (sentiment, score) = analyze_sentiment sia text;
          urgency_score1 =
            (if sentiment = Negative then urgency_score0 + 2
             else if sentiment = Positive then urgency_score0 - 1
             else urgency_score0);
          hours_old = (rat_of_int (now - sent_date email) / 1000000) / 3600;
          urgency_score2 =
            (if hours_old < 1 then urgency_score1 + 3
             else if hours_old < 4 then urgency_score1 + 2
             else if hours_old < 12 then urgency_score1 + 1
             else urgency_score1)
      in (if urgency_score2 \<ge> 3 then Urgent else NotUrgent, urgency_score2))"

section \<open>Extraction\<close>

definition requirement_keywords :: "string list" where
  "requirement_keywords = [''need'', ''want'', ''require'', ''looking for'', ''help with'']"

text \<open>The loop over the sentences, appending to \<^verbatim>\<open>requirements\<close>.\<close>

fun requirements_loop :: "string list \<Rightarrow> string list \<Rightarrow> string list" where
  "requirements_loop [] reqs = reqs"
| "requirements_loop (sentence # rest) reqs =
     requirements_loop rest
       (if any_in requirement_keywords (py_lower sentence) then reqs @ [py_strip sentence]
        else reqs)"

text \<open>
  \<^verbatim>\<open>[email for email in emails if email != email['sender']]\<close>: inside the comprehension
  the name \<^verbatim>\<open>email\<close> is the loop variable, a matched string, so the condition evaluates
  \<^verbatim>\<open>email['sender']\<close> on a string, which raises \<^verbatim>\<open>TypeError\<close> at the first element.
  With no element the condition is never evaluated.
\<close>

fun alternate_comprehension :: "string list \<Rightarrow> error + string list" where
  "alternate_comprehension [] = Inr []"
| "alternate_comprehension (email # rest) = Inl TypeError"

text \<open>\<^verbatim>\<open>extract_information\<close>: the entries of the returned dictionary are evaluated in
  the order written.\<close>

definition extract_information :: "(string \<Rightarrow> rat) \<Rightarrow> 'a email_scheme \<Rightarrow> error + extracted_info" where
  "extract_information sia email =
     (let text = fmt2 (subject email) (body email);
          phones = re_findall phone_pattern text;
          emails = re_findall email_pattern text;
          reqs = requirements_loop (re_split text) []
      in case alternate_comprehension emails of
           Inl e \<Rightarrow> Inl e
         | Inr alt \<Rightarrow>
             Inr \<lparr>phone_numbers = phones, alternate_emails = alt,
                  requirements = take 3 reqs,
                  ei_sentiment = fst (analyze_sentiment sia text)\<rparr>)"

section \<open>Categories\<close>

definition categories :: "(string \<times> string list) list" where
  "categories =
     [(''account_issues'', [''account'', ''verify'', ''verification'', ''login'', ''password'']),
      (''billing'', [''billing'', ''payment'', ''charge'', ''refund'', ''invoice'']),
      (''technical'', [''api'', ''integration'', ''technical'', ''server'', ''system'']),
      (''general'', [''question'', ''query'', ''information'', ''help''])]"

text \<open>A dictionary in insertion order; \<^verbatim>\<open>scores[category] += 1\<close> keeps the position of
  the key.\<close>

definition dict_incr :: "string \<Rightarrow> (string \<times> int) list \<Rightarrow> (string \<times> int) list" where
  "dict_incr k d = map (\<lambda>(k', v). if k' = k then (k', v + 1) else (k', v)) d"

fun keyword_loop :: "string \<Rightarrow> string \<Rightarrow> string list \<Rightarrow> (string \<times> int) list \<Rightarrow> (string \<times> int) list" where
  "keyword_loop text cat [] scores = scores"
| "keyword_loop text cat (keyword # rest) scores =
     keyword_loop text cat rest (if py_in keyword text then dict_incr cat scores else scores)"

fun category_loop :: "string \<Rightarrow> (string \<times> string list) list \<Rightarrow> (string \<times> int) list \<Rightarrow> (string \<times> int) list" where
  "category_loop text [] scores = scores"
| "category_loop text ((cat, keywords) # rest) scores =
     category_loop text rest (keyword_loop text cat keywords scores)"

text \<open>\<^verbatim>\<open>max(items, key=...)\<close>: the running maximum is replaced only by a strictly greater
  key, so the first maximal item is returned; an empty sequence raises \<^verbatim>\<open>ValueError\<close>.\<close>

fun max_loop :: "('a \<Rightarrow> int) \<Rightarrow> 'a \<Rightarrow> 'a list \<Rightarrow> 'a" where
  "max_loop key best [] = best"
| "max_loop key best (x # xs) = max_loop key (if key x > key best then x else best) xs"

definition py_max :: "('a \<Rightarrow> int) \<Rightarrow> 'a list \<Rightarrow> error + 'a" where
  "py_max key xs = (case xs of [] \<Rightarrow> Inl ValueError | x # rest \<Rightarrow> Inr (max_loop key x rest))"

definition category_scores :: "string \<Rightarrow> (string \<times> int) list" where
  "category_scores text =
     category_loop text categories (map (\<lambda>(cat, keywords). (cat, 0)) categories)"

definition categorize_email :: "'a email_scheme \<Rightarrow> error + string" where
  "categorize_email email =
     (let text = py_lower (fmt2 (subject email) (body email))
      in map_sum id fst (py_max snd (category_scores text)))"

section \<open>Response generation\<close>

definition knowledge_base :: "(string \<times> string) list" where
  "knowledge_base =
     [(''account_verification'', ''Account verification emails are sent immediately after registration. If not received, check spam folder or request a new verification link.''),
      (''login_issues'', ''Common login issues include incorrect passwords, browser cache problems, or account lockouts. Try resetting password or clearing browser cache.''),
      (''billing_errors'', ''Billing issues are handled by our finance team. Refunds typically process within 5-7 business days after approval.''),
      (''api_integration'', ''We support REST API integration with comprehensive documentation available at api.docs.example.com.''),
      (''subscription'', ''We offer Basic ($29/mo), Pro ($79/mo), and Enterprise ($199/mo) plans. All include 24/7 support and API access.''),
      (''password_reset'', ''Password reset links expire after 1 hour. If the link doesn't work, request a new one from the login page.'')]"

definition fallback :: string where
  "fallback = ''Our team is looking into your request and will provide assistance shortly.''"

text \<open>\<^verbatim>\<open>dict.get(key, default)\<close>.\<close>

definition dict_get :: "(string \<times> 'v) list \<Rightarrow> string \<Rightarrow> 'v \<Rightarrow> 'v" where
  "dict_get d k dflt = (case map_of d k of None \<Rightarrow> dflt | Some v \<Rightarrow> v)"

text \<open>\<^verbatim>\<open>category.replace('_', ' ')\<close>.\<close>

definition replace_underscore :: "string \<Rightarrow> string" where
  "replace_underscore s = map (\<lambda>c. if c = CHR ''_'' then CHR '' '' else c) s"

definition nl :: char where
  "nl = CHR 0x0A"

text \<open>\<^verbatim>\<open>text.split('\n')\<close> and \<^verbatim>\<open>'\n'.join(lines)\<close>.\<close>

fun split_lines :: "string \<Rightarrow> string list" where
  "split_lines [] = [[]]"
| "split_lines (c # cs) =
     (if c = nl then [] # split_lines cs
      else (case split_lines cs of [] \<Rightarrow> [[c]] | h # t \<Rightarrow> (c # h) # t))"

fun join_lines :: "string list \<Rightarrow> string" where
  "join_lines [] = []"
| "join_lines [l] = l"
| "join_lines (l # ls) = l @ nl # join_lines ls"

definition is_blank :: "char \<Rightarrow> bool" where
  "is_blank c = (c = CHR '' '' \<or> c = CHR 0x09)"

text \<open>The margin update of \<^verbatim>\<open>textwrap.dedent\<close> for one more indentation.\<close>

definition margin_step :: "string \<Rightarrow> string \<Rightarrow> string" where
  "margin_step indent margin =
     (if prefix margin indent then margin
      else if prefix indent margin then indent
      else longest_common_prefix margin indent)"

text \<open>\<^verbatim>\<open>textwrap.dedent\<close>: lines of blanks only are emptied, the margin is the common
  indentation of the other lines, and it is removed from the start of every line.\<close>

definition dedent :: "string \<Rightarrow> string" where
  "dedent text =
     (let ls = map (\<lambda>l. if list_all is_blank l then [] else l) (split_lines text);
          indents = map (takeWhile is_blank) (filter (\<lambda>l. dropWhile is_blank l \<noteq> []) ls);
          margin = (case indents of [] \<Rightarrow> [] | i # rest \<Rightarrow> fold margin_step rest i)
      in if margin \<noteq> []
         then join_lines (map (\<lambda>l. if prefix margin l then drop (length margin) l else l) ls)
         else join_lines ls)"

definition greeting_of :: "sentiment \<Rightarrow> string" where
  "greeting_of s =
     (if s = Negative then ''Thank you for bringing this to our attention. We sincerely apologize for the inconvenience you've experienced.''
      else if s = Positive then ''Thank you for reaching out to us! We appreciate your feedback.''
      else ''Thank you for contacting our support team.'')"

definition empathy_of :: "sentiment \<Rightarrow> string" where
  "empathy_of s =
     (if s = Negative then ''We understand your frustration and are committed to resolving this issue promptly.''
      else if s = Positive then ''We're glad to hear from you and are happy to assist.''
      else ''We're here to help and will address your inquiry promptly.'')"

text \<open>The f-string template of \<^verbatim>\<open>generate_response\<close>.\<close>

definition response_template :: "string \<Rightarrow> string \<Rightarrow> string \<Rightarrow> string \<Rightarrow> string" where
  "response_template greeting empathy cat knowledge =
     [nl] @ greeting @ [nl, nl] @ empathy @ [nl, nl]
     @ ''Regarding your '' @ replace_underscore cat @ '': '' @ knowledge @ [nl, nl]
     @ ''Please don't hesitate to reach out if you need any further assistance.'' @ [nl, nl]
     @ ''Best regards,'' @ [nl] @ ''Support Team'' @ [nl]"

definition generate_response :: "'a email_scheme \<Rightarrow> extracted_info \<Rightarrow> error + string" where
  "generate_response email info =
     (case categorize_email email of
        Inl e \<Rightarrow> Inl e
      | Inr cat \<Rightarrow>
          (let sentiment = ei_sentiment info;
               greeting = greeting_of sentiment;
               empathy = empathy_of sentiment;
               knowledge = dict_get knowledge_base cat fallback;
               response = response_template greeting empathy cat knowledge
           in Inr (py_strip (dedent response))))"

section \<open>The system state and the queue\<close>

text \<open>
  A queue entry is the tuple \<^verbatim>\<open>(-urgency_score, email_counter, processed_email)\<close>. The
  dictionary \<^verbatim>\<open>processed_email\<close> is one object shared by \<^verbatim>\<open>priority_queue\<close> and
  \<^verbatim>\<open>processed_emails\<close>: the list \<open>processed_emails\<close> holds the objects in the order of
  their creation, and the third component of an entry is the reference to its object, the
  position of the object in \<open>processed_emails\<close>.
\<close>

type_synonym entry = "int \<times> nat \<times> nat"

record system =
  emails :: "email list"
  processed_emails :: "processed_email list"
  priority_queue :: "entry list"
  email_counter :: nat

definition init :: system where
  "init = \<lparr>emails = [], processed_emails = [], priority_queue = [], email_counter = 0\<rparr>"

text \<open>The comparison of two entries by \<^verbatim>\<open>heapq\<close>: tuples compare lexicographically. The
  counter differs between any two entries of the queue, so the comparison never reaches
  the dictionaries.\<close>

fun entry_lt :: "entry \<Rightarrow> entry \<Rightarrow> bool" where
  "entry_lt (a, c, r) (a', c', r') = (a < a' \<or> (a = a' \<and> c < c'))"

text \<open>\<^verbatim>\<open>heapq._siftdown(heap, startpos, pos)\<close>, with \<open>newitem\<close> the entry taken from
  \<open>pos\<close>.\<close>

function siftdown :: "entry list \<Rightarrow> nat \<Rightarrow> nat \<Rightarrow> entry \<Rightarrow> entry list" where
  "siftdown heap startpos pos newitem =
     (if pos > startpos then
        (let parentpos = (pos - 1) div 2; parent = heap ! parentpos
         in if entry_lt newitem parent
            then siftdown (heap[pos := parent]) startpos parentpos newitem
            else heap[pos := newitem])
      else heap[pos := newitem])"
  by pat_completeness auto
termination
  by (relation "measure (\<lambda>(heap, startpos, pos, newitem). pos)") auto

declare siftdown.simps [simp del]

text \<open>\<^verbatim>\<open>heapq.heappush(heap, item)\<close>.\<close>

definition heappush :: "entry list \<Rightarrow> entry \<Rightarrow> entry list" where
  "heappush heap item = siftdown (heap @ [item]) 0 (length heap) item"

definition support_keywords :: "string list" where
  "support_keywords = [''support'', ''query'', ''request'', ''help'', ''assist'', ''issue'', ''problem'']"

definition is_support :: "'a email_scheme \<Rightarrow> bool" where
  "is_support email =
     (any_in support_keywords (py_lower (subject email))
      \<or> any_in support_keywords (py_lower (body email)))"

text \<open>\<^verbatim>\<open>filter_emails\<close>.\<close>

definition filter_emails :: "system \<Rightarrow> email list" where
  "filter_emails s = filter is_support (emails s)"

text \<open>One pass of the loop of \<^verbatim>\<open>process_emails\<close>. Every call that can raise comes before
  the first change of the state.\<close>

definition process_one :: "(string \<Rightarrow> rat) \<Rightarrow> int \<Rightarrow> email \<Rightarrow> system \<Rightarrow> error + system" where
  "process_one sia now email s =
     (let (sentiment, score) = analyze_sentiment sia (fmt2 (subject email) (body email));
          (prio, urgency) = determine_priority sia now email
      in case categorize_email email of
           Inl e \<Rightarrow> Inl e
         | Inr cat \<Rightarrow>
        (case extract_information sia email of
           Inl e \<Rightarrow> Inl e
         | Inr info \<Rightarrow>
        (case generate_response email info of
           Inl e \<Rightarrow> Inl e
         | Inr response \<Rightarrow>
             (let processed_email =
                    \<lparr>sender = sender email, subject = subject email, body = body email,
                     sent_date = sent_date email, email_id = email_id email,
                     pe_sentiment = sentiment, priority = prio, urgency_score = urgency,
                     category = cat, extracted_info = info, generated_response = response,
                     status = Pending, processing_id = email_counter s\<rparr>;
                  ref = length (processed_emails s)
              in Inr (s\<lparr>priority_queue :=
                           heappush (priority_queue s) (- urgency, email_counter s, ref),
                         processed_emails := processed_emails s @ [processed_email],
                         email_counter := email_counter s + 1\<rparr>)))))"

text \<open>The loop; \<open>clock i\<close> is the reading of \<^verbatim>\<open>datetime.now()\<close> in pass \<open>i\<close>. An exception
  leaves the loop with the state as the completed passes made it.\<close>

fun process_loop :: "(string \<Rightarrow> rat) \<Rightarrow> (nat \<Rightarrow> int) \<Rightarrow> nat \<Rightarrow> email list \<Rightarrow> system \<Rightarrow> error option \<times> system" where
  "process_loop sia clock i [] s = (None, s)"
| "process_loop sia clock i (email # rest) s =
     (case process_one sia (clock i) email s of
        Inl e \<Rightarrow> (Some e, s)
      | Inr s' \<Rightarrow> process_loop sia clock (Suc i) rest s')"

text \<open>\<^verbatim>\<open>process_emails\<close>: the number of filtered emails, or the exception, and the state
  left behind.\<close>

definition process_emails :: "(string \<Rightarrow> rat) \<Rightarrow> (nat \<Rightarrow> int) \<Rightarrow> system \<Rightarrow> (error + nat) \<times> system" where
  "process_emails sia clock s =
     (let filtered_emails = filter_emails s
      in case process_loop sia clock 0 filtered_emails s of
           (Some e, s') \<Rightarrow> (Inl e, s')
         | (None, s') \<Rightarrow> (Inr (length filtered_emails), s'))"

section \<open>The ordered view\<close>

text \<open>\<^verbatim>\<open>sorted(self.priority_queue, key=lambda x: x[0])\<close>: a stable sort of the heap's list
  by the first component alone. \<open>priority_refs\<close> are the references in that order,
  \<open>priority_emails\<close> the dictionaries they refer to.\<close>

definition priority_refs :: "system \<Rightarrow> nat list" where
  "priority_refs s = map (\<lambda>(a, c, r). r) (sort_key fst (priority_queue s))"

definition priority_emails :: "system \<Rightarrow> processed_email list" where
  "priority_emails s = map (\<lambda>r. processed_emails s ! r) (priority_refs s)"

text \<open>\<^verbatim>\<open>display_emails\<close>: the emails listed, in the order listed.\<close>

definition display_emails :: "priority option \<Rightarrow> system \<Rightarrow> processed_email list" where
  "display_emails priority_filter s =
     (if processed_emails s = [] then []
      else (case priority_filter of
              Some p \<Rightarrow> filter (\<lambda>email. priority email = p) (priority_emails s)
            | None \<Rightarrow> priority_emails s))"

text \<open>
  \<^verbatim>\<open>show_email_detail(index)\<close>; \<open>choice_input\<close> and \<open>response_input\<close> are the lines read by
  \<^verbatim>\<open>input()\<close>. An index outside the range prints \<^verbatim>\<open>Invalid email index.\<close> and returns:
  the result \<open>Inl OutOfRange\<close>. Otherwise the result is the reference of the email shown.
\<close>

definition show_email_detail :: "int \<Rightarrow> string \<Rightarrow> string \<Rightarrow> system \<Rightarrow> (error + nat) \<times> system" where
  "show_email_detail index choice_input response_input s =
     (if index < 1 \<or> index > int (length (processed_emails s)) then (Inl OutOfRange, s)
      else
        (let refs = priority_refs s
         in if nat (index - 1) \<ge> length refs then (Inl IndexError, s)
            else
              (let r = refs ! nat (index - 1);
                   email = processed_emails s ! r;
                   choice = py_strip choice_input
               in if choice = ''1''
                  then (Inr r, s\<lparr>processed_emails :=
                                   (processed_emails s)[r := email\<lparr>status := Resolved\<rparr>]\<rparr>)
                  else if choice = ''2''
                  then (let new_response = py_strip response_input
                        in if new_response \<noteq> []
                           then (Inr r, s\<lparr>processed_emails :=
                                   (processed_emails s)[r := email\<lparr>generated_response := new_response\<rparr>]\<rparr>)
                           else (Inr r, s))
                  else (Inr r, s))))"

section \<open>Reachable states\<close>

text \<open>The invariant of the queue: as many entries as processed emails, every entry with
  a valid reference, a counter below \<open>email_counter\<close> and the negated urgency score of
  its email as first component, and no counter twice. The reachable states are those
  that loading, processing and the detail view produce from the initial one.\<close>

definition wf :: "system \<Rightarrow> bool" where
  "wf s =
     (length (priority_queue s) = length (processed_emails s)
      \<and> list_all (\<lambda>(a, c, r). r < length (processed_emails s) \<and> c < email_counter s
                     \<and> a = - urgency_score (processed_emails s ! r)) (priority_queue s)
      \<and> distinct (map (\<lambda>(a, c, r). c) (priority_queue s)))"

inductive reachable :: "system \<Rightarrow> bool" where
  start: "reachable init"
| load: "reachable s \<Longrightarrow> reachable (s\<lparr>emails := emails s @ new_emails\<rparr>)"
| process: "reachable s \<Longrightarrow> reachable (snd (process_emails sia clock s))"
| detail: "reachable s \<Longrightarrow> reachable (snd (show_email_detail index ci ri s))"

section \<open>The scoring rule as the specification words it\<close>

text \<open>The sentiment adjustment and the recency bonus of the specification; an age is
  \<open>now - sent_date\<close> in microseconds.\<close>

definition spec_sentiment_adjustment :: "sentiment \<Rightarrow> int" where
  "spec_sentiment_adjustment l = (case l of Negative \<Rightarrow> 2 | Positive \<Rightarrow> - 1 | Neutral \<Rightarrow> 0)"

definition hour_us :: int where
  "hour_us = 3600 * 1000000"

definition spec_recency_bonus :: "int \<Rightarrow> int" where
  "spec_recency_bonus age =
     (if age < hour_us then 3 else if age < 4 * hour_us then 2
      else if age < 12 * hour_us then 1 else 0)"

section \<open>Auxiliary definitions\<close>

text \<open>The four category names; the response before and after \<^verbatim>\<open>dedent\<close> and \<^verbatim>\<open>strip\<close>;
  one character of each knowledge-base entry that no response contains.\<close>

definition category_names :: "string list" where
  "category_names = [''account_issues'', ''billing'', ''technical'', ''general'']"

definition compose :: "string \<Rightarrow> sentiment \<Rightarrow> string" where
  "compose c s = py_strip (dedent (response_template (greeting_of s) (empathy_of s) c
                 (dict_get knowledge_base c fallback)))"

definition composed :: "string \<Rightarrow> sentiment \<Rightarrow> string" where
  "composed c s =
     (greeting_of s @ [nl, nl] @ empathy_of s @ [nl, nl]
      @ ''Regarding your '' @ replace_underscore c @ '': '') @ fallback
     @ ([nl, nl] @ ''Please don't hesitate to reach out if you need any further assistance.''
        @ [nl, nl] @ ''Best regards,'' @ [nl] @ ''Support Team'')"

definition marks :: "char list" where
  "marks = [CHR ''A'', CHR ''C'', CHR ''5'', CHR ''E'', CHR ''$'', CHR ''1'']"

section \<open>Concrete inputs\<close>

definition mail_with_address :: email where
  "mail_with_address =
     \<lparr>sender = ''carol@example.com'', subject = ''login issue'',
      body = ''Please answer to dave@example.net. Thanks'', sent_date = 0,
      email_id = ''email_1''\<rparr>"

definition mail_alt :: email where
  "mail_alt =
     \<lparr>sender = ''alice@example.com'', subject = ''help'',
      body = ''reach me at bob@example.org or alice@example.com'', sent_date = 0,
      email_id = ''email_1''\<rparr>"

definition mail_urgent :: email where
  "mail_urgent =
     \<lparr>sender = ''erin@example.com'', subject = ''URGENT: cannot access account'',
      body = ''The login page is broken'', sent_date = 0, email_id = ''email_1''\<rparr>"

definition mail_plain :: email where
  "mail_plain =
     \<lparr>sender = ''frank@example.com'', subject = ''hello'',
      body = ''nothing to see'', sent_date = 0, email_id = ''email_2''\<rparr>"

definition mail_tie :: email where
  "mail_tie =
     \<lparr>sender = ''gina@example.com'', subject = ''Refund question'',
      body = ''see above'', sent_date = 0, email_id = ''email_3''\<rparr>"

definition mail_reqs :: email where
  "mail_reqs =
     \<lparr>sender = ''henry@example.com'', subject = ''Account trouble'',
      body = ''It is broken. I NEED help with login!  We want a refund? Looking for info. I require an answer.'',
      sent_date = 0, email_id = ''email_4''\<rparr>"

definition mail_billing :: email where
  "mail_billing =
     \<lparr>sender = ''ivy@example.com'', subject = ''Billing error'',
      body = ''I was charged twice, please refund one payment'', sent_date = 0,
      email_id = ''email_5''\<rparr>"

definition info_negative :: extracted_info where
  "info_negative =
     \<lparr>phone_numbers = [], alternate_emails = [], requirements = [], ei_sentiment = Negative\<rparr>"

definition mail_reqs_address :: email where
  "mail_reqs_address =
     \<lparr>sender = ''kim@example.com'', subject = ''login'',
      body = ''I need help with login. Write to bob@example.org'', sent_date = 0,
      email_id = ''email_6''\<rparr>"

definition mail_latin_dash :: email where
  "mail_latin_dash =
     \<lparr>sender = ''lea@example.com'', subject = ''s'',
      body = ''x '' @ [CHR 0xE9] @ ''-@b.cd'', sent_date = 0, email_id = ''email_7''\<rparr>"

definition mail_latin_name :: email where
  "mail_latin_name =
     \<lparr>sender = ''max@example.com'', subject = ''s'',
      body = ''write to garc'' @ [CHR 0xED] @ ''a@example.com'', sent_date = 0,
      email_id = ''email_8''\<rparr>"

definition now3 :: int where
  "now3 = 200000 * 1000000"

definition sent3 :: int where
  "sent3 = now3 - 600 * 1000000"

definition plain_mail :: "string \<Rightarrow> int \<Rightarrow> email" where
  "plain_mail i d =
     \<lparr>sender = ''judy@example.com'', subject = ''request'', body = ''status page'',
      sent_date = d, email_id = i\<rparr>"

definition three_mails :: "email list" where
  "three_mails =
     [plain_mail ''email_1'' 0, plain_mail ''email_2'' 0,
      plain_mail ''email_3'' sent3]"

definition queue3 :: system where
  "queue3 = snd (process_emails (\<lambda>t. 0) (\<lambda>i. now3) (init\<lparr>emails := three_mails\<rparr>))"

section \<open>Properties\<close>

subsection \<open>The word characters\<close>

text \<open>The code points of the word characters.\<close>

lemma char_eq_code: "(c = d) = ((of_char c :: nat) = of_char d)"
  by auto

lemma is_word_code_points:
  "is_word c \<longleftrightarrow>
     (let n = (of_char c :: nat)
      in (48 \<le> n \<and> n \<le> 57) \<or> (65 \<le> n \<and> n \<le> 90) \<or> n = 95 \<or> (97 \<le> n \<and> n \<le> 122)
         \<or> n = 170 \<or> (178 \<le> n \<and> n \<le> 179) \<or> n = 181 \<or> (185 \<le> n \<and> n \<le> 186)
         \<or> (188 \<le> n \<and> n \<le> 190) \<or> (192 \<le> n \<and> n \<le> 214) \<or> (216 \<le> n \<and> n \<le> 246)
         \<or> (248 \<le> n \<and> n \<le> 255))"
  unfolding is_word_def in_class_def Let_def
  by (simp add: char_eq_code) blast

subsection \<open>Extraction of alternate addresses\<close>

lemma alternate_comprehension_cases:
  "alternate_comprehension ms = (if ms = [] then Inr [] else Inl TypeError)"
  by (cases ms) simp_all

text \<open>
  Claim C9. An email whose subject and body contain a match of the address pattern makes
  \<open>extract_information\<close> raise \<open>TypeError\<close>; it returns a result exactly for the emails
  without such a match, and the alternate addresses of that result are empty.
\<close>

theorem extract_information_address_raises:
  "(re_findall email_pattern (fmt2 (subject e) (body e)) \<noteq> []
      \<longrightarrow> extract_information sia e = Inl TypeError)
   \<and> (re_findall email_pattern (fmt2 (subject e) (body e)) = []
      \<longrightarrow> (\<exists>info. extract_information sia e = Inr info \<and> alternate_emails info = []))"
  by (simp add: extract_information_def Let_def alternate_comprehension_cases)

lemma mail_with_address_matches:
  "re_findall email_pattern (fmt2 (subject mail_with_address) (body mail_with_address))
     = [''dave@example.net'']"
  by code_simp

theorem extract_information_address_raises_witness:
  "re_findall email_pattern (fmt2 (subject mail_with_address) (body mail_with_address)) \<noteq> []
   \<and> extract_information (\<lambda>t. 0) mail_with_address = Inl TypeError"
proof -
  have h: "re_findall email_pattern (fmt2 (subject mail_with_address) (body mail_with_address)) \<noteq> []"
    by (simp add: mail_with_address_matches)
  from extract_information_address_raises [of mail_with_address "\<lambda>t. 0"] h
  show ?thesis by blast
qed

text \<open>Two texts with Latin-1 letters. A letter before a hyphen makes a word boundary, so
  the address pattern matches from the hyphen; a letter inside a name leaves no word
  boundary before the rest of the name, so the pattern matches nowhere.\<close>

lemma latin1_dash_raises:
  "re_findall email_pattern (fmt2 (subject mail_latin_dash) (body mail_latin_dash)) = [''-@b.cd'']
   \<and> extract_information sia mail_latin_dash = Inl TypeError"
  by code_simp

lemma latin1_name_returns:
  "re_findall email_pattern (fmt2 (subject mail_latin_name) (body mail_latin_name)) = []
   \<and> (\<exists>info. extract_information sia mail_latin_name = Inr info)"
proof -
  have "re_findall email_pattern (fmt2 (subject mail_latin_name) (body mail_latin_name)) = []"
    by code_simp
  then show ?thesis
    by (simp add: extract_information_def Let_def)
qed

lemma py_strip_latin1: "py_strip ([CHR 0xA0] @ '' I need it '' @ [CHR 0x85]) = ''I need it''"
  by code_simp

text \<open>
  Claim C1. The text of \<open>mail_alt\<close> holds two addresses, one of them the sender's. The
  alternate addresses should be the other one; \<open>extract_information\<close> raises \<open>TypeError\<close>
  instead, whatever the sentiment analyzer.
\<close>

theorem extract_information_alternate_fails:
  "re_findall email_pattern (fmt2 (subject mail_alt) (body mail_alt))
     = [''bob@example.org'', ''alice@example.com'']
   \<and> extract_information sia mail_alt = Inl TypeError"
  by code_simp

subsection \<open>The batch\<close>

text \<open>
  Claim C10. \<open>mail_alt\<close> is a support email (its subject contains \<open>help\<close>), so a batch
  made of it should end with one email in the queue and the count 1. \<open>process_emails\<close>
  raises \<open>TypeError\<close> and leaves the queue empty.
\<close>

theorem process_emails_address_aborts:
  "is_support mail_alt
   \<and> process_emails sia clock (init\<lparr>emails := [mail_alt]\<rparr>)
       = (Inl TypeError, init\<lparr>emails := [mail_alt]\<rparr>)"
proof -
  have x: "extract_information sia mail_alt = Inl TypeError" by code_simp
  have c: "categorize_email mail_alt = Inr ''general''" by code_simp
  have p: "process_one sia now mail_alt s = Inl TypeError" for now s
    by (simp add: process_one_def x c split: prod.splits)
  have f: "is_support mail_alt" by code_simp
  show ?thesis
    by (simp add: f process_emails_def filter_emails_def p)
qed

subsection \<open>Priority\<close>

lemma py_in_sublist: "py_in k t = sublist k t"
  by (induction t) (simp_all add: sublist_Cons_right)

lemma sum_list_ones: "sum_list (map (\<lambda>x. (1::int)) xs) = int (length xs)"
  by (induction xs) simp_all

lemma distinct_priority_keywords: "distinct priority_keywords"
  by (simp add: priority_keywords_def)

lemma keyword_count_card:
  "int (length (filter (\<lambda>k. py_in k t) priority_keywords))
     = int (card {k \<in> set priority_keywords. sublist k t})"
proof -
  have "{k \<in> set priority_keywords. sublist k t} = {k. sublist k t} \<inter> set priority_keywords"
    by auto
  then show ?thesis
    by (simp add: distinct_length_filter [OF distinct_priority_keywords] py_in_sublist)
qed

lemma hours_old_lt:
  "((rat_of_int a / 1000000) / 3600 < 1) = (a < hour_us)"
  "((rat_of_int a / 1000000) / 3600 < 4) = (a < 4 * hour_us)"
  "((rat_of_int a / 1000000) / 3600 < 12) = (a < 12 * hour_us)"
  unfolding hour_us_def
  by (simp_all add: divide_less_eq)

lemma determine_priority_eq:
  "determine_priority sia now e =
     (let text = py_lower (fmt2 (subject e) (body e));
          score = int (card {k \<in> set priority_keywords. sublist k text})
                  + spec_sentiment_adjustment (fst (analyze_sentiment sia text))
                  + spec_recency_bonus (now - sent_date e)
      in (if score \<ge> 3 then Urgent else NotUrgent, score))"
proof -
  obtain l c where a: "analyze_sentiment sia (py_lower (fmt2 (subject e) (body e))) = (l, c)"
    by (cases "analyze_sentiment sia (py_lower (fmt2 (subject e) (body e)))")
  show ?thesis
    unfolding determine_priority_def Let_def a sum_list_ones keyword_count_card hours_old_lt
    by (cases l) (simp_all add: spec_sentiment_adjustment_def spec_recency_bonus_def)
qed

text \<open>
  Claim C4. The urgency score of \<open>determine_priority\<close> is the number of priority keywords
  that occur in the lowercased subject and body, plus the sentiment adjustment for the
  label of that text, plus the recency bonus for the age of the email; the label is
  \<open>Urgent\<close> exactly when the score is at least 3.
\<close>

theorem determine_priority_formula:
  "determine_priority sia now e =
     (let text = py_lower (fmt2 (subject e) (body e));
          score = int (card {k \<in> set priority_keywords. sublist k text})
                  + spec_sentiment_adjustment (fst (analyze_sentiment sia text))
                  + spec_recency_bonus (now - sent_date e)
      in (if score \<ge> 3 then Urgent else NotUrgent, score))"
  by (rule determine_priority_eq)

lemma mail_urgent_count:
  "card {k \<in> set priority_keywords. sublist k (py_lower (fmt2 (subject mail_urgent) (body mail_urgent)))} = 3"
proof -
  have "length (filter (\<lambda>k. py_in k (py_lower (fmt2 (subject mail_urgent) (body mail_urgent)))) priority_keywords) = 3"
    by code_simp
  with keyword_count_card [of "py_lower (fmt2 (subject mail_urgent) (body mail_urgent))"]
  show ?thesis by simp
qed

theorem determine_priority_formula_witness:
  "determine_priority (\<lambda>t. - (1/2)) (1800 * 1000000) mail_urgent = (Urgent, 8)"
proof -
  have s: "fst (analyze_sentiment (\<lambda>t. - (1/2)) t) = Negative" for t
    by (simp add: analyze_sentiment_def)
  have d: "sent_date mail_urgent = 0" by (simp add: mail_urgent_def)
  show ?thesis
    using determine_priority_formula [of "\<lambda>t. - (1/2)" "1800 * 1000000" mail_urgent]
    by (simp add: Let_def mail_urgent_count s d spec_sentiment_adjustment_def spec_recency_bonus_def hour_us_def)
qed

subsection \<open>Categories\<close>

lemma map_fst_dict_incr: "map fst (dict_incr k d) = map fst d"
  by (induction d) (auto simp: dict_incr_def)

lemma map_fst_keyword_loop: "map fst (keyword_loop t c kws sc) = map fst sc"
  by (induction kws arbitrary: sc) (simp_all add: map_fst_dict_incr)

lemma map_fst_category_loop: "map fst (category_loop t cats sc) = map fst sc"
  by (induction cats arbitrary: sc) (auto simp: map_fst_keyword_loop)

lemma category_scores_keys:
  "map fst (category_scores t) = [''account_issues'', ''billing'', ''technical'', ''general'']"
proof -
  have "map fst (category_scores t) = map fst (map (\<lambda>(cat, keywords). (cat, 0::int)) categories)"
    unfolding category_scores_def by (rule map_fst_category_loop)
  also have "\<dots> = [''account_issues'', ''billing'', ''technical'', ''general'']"
    by (simp add: categories_def)
  finally show ?thesis .
qed

lemma max_loop_first:
  "\<exists>pre post. b # xs = pre @ max_loop key b xs # post
      \<and> (\<forall>y \<in> set pre. key y < key (max_loop key b xs))
      \<and> (\<forall>y \<in> set post. key y \<le> key (max_loop key b xs))"
proof (induction xs arbitrary: b)
  case Nil
  have "[b] = [] @ max_loop key b [] # []" by simp
  then show ?case by fastforce
next
  case (Cons x xs)
  show ?case
  proof (cases "key x > key b")
    case True
    define m where "m = max_loop key x xs"
    from Cons.IH [of x] obtain pre post where
      d: "x # xs = pre @ m # post"
      and l: "\<forall>y \<in> set pre. key y < key m"
      and r: "\<forall>y \<in> set post. key y \<le> key m"
      unfolding m_def by blast
    have "x \<in> set (pre @ m # post)"
      using d by (metis list.set_intros(1))
    then have "key x \<le> key m"
      using l r by auto
    with True have bm: "key b < key m" by simp
    have res: "max_loop key b (x # xs) = m"
      using True by (simp add: m_def)
    have "b # x # xs = (b # pre) @ m # post" using d by simp
    moreover have "\<forall>y \<in> set (b # pre). key y < key m" using l bm by simp
    ultimately show ?thesis
      unfolding res using r by blast
  next
    case False
    define m where "m = max_loop key b xs"
    from Cons.IH [of b] obtain pre post where
      d: "b # xs = pre @ m # post"
      and l: "\<forall>y \<in> set pre. key y < key m"
      and r: "\<forall>y \<in> set post. key y \<le> key m"
      unfolding m_def by blast
    have res: "max_loop key b (x # xs) = m"
      using False by (simp add: m_def)
    show ?thesis
    proof (cases pre)
      case Nil
      with d have e: "b = m" "xs = post" by simp_all
      have "b # x # xs = [] @ m # (x # post)" using e by simp
      moreover have "\<forall>y \<in> set (x # post). key y \<le> key m" using r False e by auto
      ultimately show ?thesis
        unfolding res by (metis empty_iff empty_set)
    next
      case (Cons p pre')
      with d have e: "p = b" "xs = pre' @ m # post" by simp_all
      with l Cons have bm: "key b < key m" by simp
      have "b # x # xs = (b # x # pre') @ m # post" using e by simp
      moreover have "\<forall>y \<in> set (b # x # pre'). key y < key m"
        using l Cons bm False by auto
      ultimately show ?thesis
        unfolding res using r by blast
    qed
  qed
qed

text \<open>The score of a category is the number of its keywords that occur in the text.\<close>

lemma keyword_loop_count:
  "keyword_loop t c kws sc
     = map (\<lambda>(k, v). if k = c then (k, v + int (length (filter (\<lambda>kw. py_in kw t) kws))) else (k, v)) sc"
proof (induction kws arbitrary: sc)
  case Nil
  have "map (\<lambda>(k, v). if k = c then (k, v + int (length (filter (\<lambda>kw. py_in kw t) []))) else (k, v)) sc = sc"
    by (rule map_idI) auto
  then show ?case by simp
next
  case (Cons kw kws)
  show ?case
    by (simp add: Cons.IH dict_incr_def case_prod_beta comp_def)
qed

lemma category_loop_count:
  assumes "distinct (map fst cats)"
  shows "category_loop t cats sc
     = map (\<lambda>(k, v). (k, v + (case map_of cats k of None \<Rightarrow> 0
                                | Some kws \<Rightarrow> int (length (filter (\<lambda>kw. py_in kw t) kws))))) sc"
  using assms
proof (induction cats arbitrary: sc)
  case Nil
  have "map (\<lambda>(k, v). (k, v + (case map_of [] k of None \<Rightarrow> 0
                                | Some kws \<Rightarrow> int (length (filter (\<lambda>kw. py_in kw t) kws))))) sc = sc"
    by (rule map_idI) auto
  then show ?case by simp
next
  case (Cons ck cats)
  obtain c kws where ck: "ck = (c, kws)" by (cases ck)
  have c: "map_of cats c = None"
    using Cons.prems by (simp add: ck map_of_eq_None_iff)
  from Cons.prems have d: "distinct (map fst cats)" by simp
  show ?case
    unfolding ck category_loop.simps Cons.IH [OF d] keyword_loop_count
    by (auto simp: c case_prod_beta split: option.splits)
qed

lemma category_scores_count:
  "category_scores t
     = map (\<lambda>(c, kws). (c, int (length (filter (\<lambda>kw. py_in kw t) kws)))) categories"
proof -
  have d: "distinct (map fst categories)" by (simp add: categories_def)
  have "category_scores t
     = map (\<lambda>(k, v). (k, v + (case map_of categories k of None \<Rightarrow> 0
                                | Some kws \<Rightarrow> int (length (filter (\<lambda>kw. py_in kw t) kws)))))
         (map (\<lambda>(cat, keywords). (cat, 0)) categories)"
    unfolding category_scores_def by (rule category_loop_count [OF d])
  also have "\<dots> = map (\<lambda>(c, kws). (c, int (length (filter (\<lambda>kw. py_in kw t) kws)))) categories"
    by (simp add: categories_def)
  finally show ?thesis .
qed

lemma category_scores_sublist:
  "category_scores t
     = map (\<lambda>(c, kws). (c, int (length (filter (\<lambda>kw. sublist kw t) kws)))) categories"
  using category_scores_count [of t] by (simp add: py_in_sublist)

text \<open>
  Claim C5. The score of each category is the number of its keywords that occur in the
  lowercased subject and body, and the scores are listed in the fixed order of the
  categories. The category returned is one with the maximal score, and every category
  listed before it has a strictly smaller score: among the categories that share the
  maximum the first is returned. When all four scores tie, that is \<open>account_issues\<close>.
\<close>

theorem categorize_email_first_maximal:
  "category_scores (py_lower (fmt2 (subject e) (body e)))
     = map (\<lambda>(c, kws). (c, int (length (filter
              (\<lambda>kw. sublist kw (py_lower (fmt2 (subject e) (body e)))) kws)))) categories
   \<and> map fst (category_scores (py_lower (fmt2 (subject e) (body e))))
     = [''account_issues'', ''billing'', ''technical'', ''general'']
   \<and> (\<exists>pre c m post.
         category_scores (py_lower (fmt2 (subject e) (body e))) = pre @ (c, m) # post
         \<and> categorize_email e = Inr c
         \<and> (\<forall>p \<in> set pre. snd p < m) \<and> (\<forall>p \<in> set post. snd p \<le> m))
   \<and> ((\<forall>p \<in> set (category_scores (py_lower (fmt2 (subject e) (body e)))).
         \<forall>q \<in> set (category_scores (py_lower (fmt2 (subject e) (body e)))). snd p = snd q)
        \<longrightarrow> categorize_email e = Inr ''account_issues'')"
proof -
  define sc where "sc = category_scores (py_lower (fmt2 (subject e) (body e)))"
  have keys: "map fst sc = [''account_issues'', ''billing'', ''technical'', ''general'']"
    unfolding sc_def by (rule category_scores_keys)
  then obtain b xs where bx: "sc = b # xs" by (cases sc) auto
  define w where "w = max_loop snd b xs"
  have cat: "categorize_email e = Inr (fst w)"
    using bx by (simp add: categorize_email_def py_max_def sc_def [symmetric] w_def)
  from max_loop_first [of b xs snd] obtain pre post where
    d: "sc = pre @ w # post"
    and l: "\<forall>y \<in> set pre. snd y < snd w"
    and r: "\<forall>y \<in> set post. snd y \<le> snd w"
    unfolding w_def bx by blast
  have "sc = pre @ (fst w, snd w) # post" using d by simp
  with cat l r have two: "\<exists>pre c m post. sc = pre @ (c, m) # post \<and> categorize_email e = Inr c
         \<and> (\<forall>p \<in> set pre. snd p < m) \<and> (\<forall>p \<in> set post. snd p \<le> m)"
    by blast
  have three: "categorize_email e = Inr ''account_issues''"
    if tie: "\<forall>p \<in> set sc. \<forall>q \<in> set sc. snd p = snd q"
  proof -
    have "pre = []"
    proof (cases pre)
      case Nil then show ?thesis .
    next
      case (Cons p pre')
      then have "p \<in> set sc" "w \<in> set sc" using d by simp_all
      with tie have "snd p = snd w" by blast
      moreover have "snd p < snd w" using l Cons by simp
      ultimately show ?thesis by simp
    qed
    with d bx have "w = b" by simp
    moreover have "fst b = ''account_issues''" using keys bx by simp
    ultimately show ?thesis using cat by simp
  qed
  have cnt: "sc = map (\<lambda>(c, kws). (c, int (length (filter
              (\<lambda>kw. sublist kw (py_lower (fmt2 (subject e) (body e)))) kws)))) categories"
    unfolding sc_def by (rule category_scores_sublist)
  show ?thesis
    using cnt keys two three unfolding sc_def by blast
qed

lemma mail_plain_scores:
  "category_scores (py_lower (fmt2 (subject mail_plain) (body mail_plain)))
     = [(''account_issues'', 0), (''billing'', 0), (''technical'', 0), (''general'', 0)]"
  by code_simp

lemma mail_tie_counts:
  "map (\<lambda>(c, kws). (c, int (length (filter
              (\<lambda>kw. sublist kw (py_lower (fmt2 (subject mail_tie) (body mail_tie)))) kws)))) categories
     = [(''account_issues'', 0), (''billing'', 1), (''technical'', 0), (''general'', 1)]"
  by code_simp

theorem categorize_email_first_maximal_witness:
  "categorize_email mail_plain = Inr ''account_issues''
   \<and> categorize_email mail_tie = Inr ''billing''
   \<and> category_scores (py_lower (fmt2 (subject mail_tie) (body mail_tie)))
       = [(''account_issues'', 0), (''billing'', 1), (''technical'', 0), (''general'', 1)]"
proof -
  note t = categorize_email_first_maximal [of mail_tie]
  from t have sc: "category_scores (py_lower (fmt2 (subject mail_tie) (body mail_tie)))
       = [(''account_issues'', 0), (''billing'', 1), (''technical'', 0), (''general'', 1)]"
    unfolding mail_tie_counts by (rule conjunct1)
  from t obtain pre c m post where
    d: "[(''account_issues'', 0::int), (''billing'', 1), (''technical'', 0), (''general'', 1)]
          = pre @ (c, m) # post"
    and r: "categorize_email mail_tie = Inr c"
    and l: "\<forall>p \<in> set pre. snd p < m" and g: "\<forall>p \<in> set post. snd p \<le> m"
    unfolding sc by blast
  from d l g have "c = ''billing''"
    by (auto simp: Cons_eq_append_conv)
  moreover have "categorize_email mail_plain = Inr ''account_issues''"
  proof -
    have tie: "\<forall>p \<in> set (category_scores (py_lower (fmt2 (subject mail_plain) (body mail_plain)))).
         \<forall>q \<in> set (category_scores (py_lower (fmt2 (subject mail_plain) (body mail_plain)))). snd p = snd q"
      unfolding mail_plain_scores by simp
    from categorize_email_first_maximal [of mail_plain, THEN conjunct2, THEN conjunct2, THEN conjunct2] tie
    show ?thesis by (rule mp)
  qed
  ultimately show ?thesis using r sc by simp
qed

subsection \<open>Requirements\<close>

lemma any_in_Bex: "any_in ks t = (\<exists>k \<in> set ks. sublist k t)"
  by (simp add: any_in_def list_ex_iff py_in_sublist)

lemma requirements_loop_filter:
  "requirements_loop sentences reqs
     = reqs @ map py_strip (filter (\<lambda>s. any_in requirement_keywords (py_lower s)) sentences)"
  by (induction sentences arbitrary: reqs) simp_all

lemma re_split_nonempty: "re_split t \<noteq> []"
  by (induction t) (auto split: list.splits)

lemma re_split_pieces:
  "concat (re_split t) = filter (\<lambda>c. \<not> is_terminator c) t
   \<and> length (re_split t) = Suc (length (filter is_terminator t))
   \<and> (\<forall>piece \<in> set (re_split t). \<forall>c \<in> set piece. \<not> is_terminator c)"
proof (induction t)
  case Nil
  show ?case by simp
next
  case (Cons c cs)
  obtain h r where hr: "re_split cs = h # r"
    using re_split_nonempty [of cs] by (cases "re_split cs") auto
  show ?case
    using Cons.IH by (auto simp: hr)
qed

text \<open>
  Whenever \<open>extract_information\<close> returns, its requirements are the first three (or fewer)
  of the sentences that contain a requirement keyword, case-insensitively, each stripped,
  in the order of the text; the sentences are the pieces of subject and body between the
  terminators. It returns for every email without an address match.
\<close>

lemma extract_information_requirements:
  "(\<forall>info. extract_information sia e = Inr info \<longrightarrow>
       requirements info
         = take 3 (map py_strip
             (filter (\<lambda>s. \<exists>k \<in> set requirement_keywords. sublist k (py_lower s))
                (re_split (fmt2 (subject e) (body e)))))
       \<and> length (requirements info) \<le> 3
       \<and> (\<forall>r \<in> set (requirements info).
             \<exists>s \<in> set (re_split (fmt2 (subject e) (body e))).
               r = py_strip s \<and> (\<exists>k \<in> set requirement_keywords. sublist k (py_lower s))))
   \<and> (re_findall email_pattern (fmt2 (subject e) (body e)) = []
        \<longrightarrow> (\<exists>info. extract_information sia e = Inr info))"
proof -
  define P where "P = (\<lambda>s. \<exists>k \<in> set requirement_keywords. sublist k (py_lower s))"
  define tx where "tx = fmt2 (subject e) (body e)"
  have loop: "requirements_loop (re_split tx) [] = map py_strip (filter P (re_split tx))"
    by (simp add: requirements_loop_filter any_in_Bex P_def)
  have one: "requirements info = take 3 (map py_strip (filter P (re_split tx)))"
    if "extract_information sia e = Inr info" for info
    using that
    by (auto simp: extract_information_def Let_def loop tx_def [symmetric]
          split: sum.splits)
  have mem: "\<exists>s \<in> set (re_split tx). r = py_strip s \<and> P s"
    if "r \<in> set (take 3 (map py_strip (filter P (re_split tx))))" for r
  proof -
    from that have "r \<in> set (map py_strip (filter P (re_split tx)))"
      by (rule in_set_takeD)
    then show ?thesis by auto
  qed
  have two: "\<exists>info. extract_information sia e = Inr info"
    if "re_findall email_pattern tx = []"
    using that by (simp add: extract_information_def Let_def tx_def [symmetric])
  show ?thesis
    using one mem two unfolding P_def tx_def by simp
qed

lemma mail_reqs_no_address:
  "re_findall email_pattern (fmt2 (subject mail_reqs) (body mail_reqs)) = []"
  by code_simp

lemma mail_reqs_sentences:
  "take 3 (map py_strip
      (filter (\<lambda>s. \<exists>k \<in> set requirement_keywords. sublist k (py_lower s))
         (re_split (fmt2 (subject mail_reqs) (body mail_reqs)))))
   = [''I NEED help with login'', ''We want a refund'', ''Looking for info'']"
  by code_simp

lemma mail_reqs_requirements:
  "\<exists>info. extract_information (\<lambda>t. 0) mail_reqs = Inr info
      \<and> requirements info = [''I NEED help with login'', ''We want a refund'', ''Looking for info'']"
proof -
  note t = extract_information_requirements [of "\<lambda>t. 0" mail_reqs]
  from t mail_reqs_no_address obtain info where
    i: "extract_information (\<lambda>t. 0) mail_reqs = Inr info" by blast
  with t have "requirements info
         = take 3 (map py_strip
             (filter (\<lambda>s. \<exists>k \<in> set requirement_keywords. sublist k (py_lower s))
                (re_split (fmt2 (subject mail_reqs) (body mail_reqs)))))"
    by blast
  with i show ?thesis unfolding mail_reqs_sentences by blast
qed

text \<open>
  Claim C6. The text of \<open>mail_reqs_address\<close> has one sentence with a requirement keyword,
  so its requirements should be that sentence, stripped. The text also holds an address,
  and \<open>extract_information\<close> raises \<open>TypeError\<close> before it returns anything, whatever the
  sentiment analyzer.
\<close>

theorem extract_information_requirements_lost:
  "take 3 (map py_strip
      (filter (\<lambda>s. any_in requirement_keywords (py_lower s))
         (re_split (fmt2 (subject mail_reqs_address) (body mail_reqs_address)))))
     = [''login I need help with login'']
   \<and> extract_information sia mail_reqs_address = Inl TypeError"
  by code_simp

subsection \<open>Responses\<close>

lemma max_loop_mem: "max_loop key b xs \<in> set (b # xs)"
  by (induction xs arbitrary: b) (simp, force)

lemma categorize_email_in_names:
  "\<exists>c. categorize_email e = Inr c \<and> c \<in> set category_names"
proof -
  define sc where "sc = category_scores (py_lower (fmt2 (subject e) (body e)))"
  have keys: "map fst sc = category_names"
    unfolding sc_def category_names_def by (rule category_scores_keys)
  then obtain b xs where bx: "sc = b # xs" by (cases sc) (auto simp: category_names_def)
  have "categorize_email e = Inr (fst (max_loop snd b xs))"
    using bx by (simp add: categorize_email_def py_max_def sc_def [symmetric])
  moreover have "fst (max_loop snd b xs) \<in> set (map fst sc)"
    using max_loop_mem [of snd b xs] unfolding bx by (metis image_eqI set_map)
  ultimately show ?thesis using keys by simp
qed

lemma names_not_in_knowledge_base:
  "c \<in> set category_names \<Longrightarrow> map_of knowledge_base c = None"
  by (auto simp: category_names_def knowledge_base_def)

lemma compose_all:
  "list_all (\<lambda>c. list_all (\<lambda>s. compose c s = composed c s) [Positive, Negative, Neutral])
     category_names"
  by code_simp

lemma compose_composed:
  assumes "c \<in> set category_names"
  shows "compose c s = composed c s"
proof -
  have "s \<in> set [Positive, Negative, Neutral]" by (cases s) simp_all
  with compose_all assms show ?thesis
    unfolding list_all_iff by blast
qed

lemma marks_all:
  "list_all (\<lambda>c. list_all (\<lambda>s. list_all (\<lambda>x. x \<notin> set (composed c s)) marks)
     [Positive, Negative, Neutral]) category_names"
  by code_simp

lemma marks_absent:
  assumes "c \<in> set category_names" "x \<in> set marks"
  shows "x \<notin> set (composed c s)"
proof -
  have "s \<in> set [Positive, Negative, Neutral]" by (cases s) simp_all
  with marks_all assms show ?thesis
    unfolding list_all_iff by blast
qed

lemma knowledge_marked:
  "\<forall>(k, v) \<in> set knowledge_base. \<exists>x \<in> set marks. x \<in> set v"
  by (simp add: knowledge_base_def marks_def)

text \<open>
  Claim C8. The category of an email is one of the four category names, and none of them
  is a key of the knowledge base. So every response contains the generic fallback
  sentence, and contains no entry of the knowledge base.
\<close>

theorem generate_response_fallback:
  "(\<exists>c. categorize_email e = Inr c
        \<and> c \<in> set [''account_issues'', ''billing'', ''technical'', ''general'']
        \<and> map_of knowledge_base c = None)
   \<and> (\<exists>r. generate_response e info = Inr r
        \<and> sublist fallback r
        \<and> (\<forall>(k, v) \<in> set knowledge_base. \<not> sublist v r))"
proof -
  from categorize_email_in_names [of e] obtain c where
    c: "categorize_email e = Inr c" and n: "c \<in> set category_names" by blast
  have kb: "map_of knowledge_base c = None"
    using n by (rule names_not_in_knowledge_base)
  have r: "generate_response e info = Inr (composed c (ei_sentiment info))"
    using compose_composed [OF n, of "ei_sentiment info"]
    by (simp add: generate_response_def c Let_def compose_def)
  have f: "sublist fallback (composed c (ei_sentiment info))"
    unfolding composed_def by (rule sublist_appendI)
  have k: "\<not> sublist v (composed c (ei_sentiment info))" if "(k, v) \<in> set knowledge_base" for k v
  proof
    assume "sublist v (composed c (ei_sentiment info))"
    then have sub: "set v \<subseteq> set (composed c (ei_sentiment info))"
      by (rule set_mono_sublist)
    from knowledge_marked that obtain x where "x \<in> set marks" "x \<in> set v" by blast
    with sub marks_absent [OF n, of x "ei_sentiment info"] show False by blast
  qed
  from c n kb have one: "\<exists>c. categorize_email e = Inr c
        \<and> c \<in> set [''account_issues'', ''billing'', ''technical'', ''general'']
        \<and> map_of knowledge_base c = None"
    unfolding category_names_def by blast
  from r f k have two: "\<exists>r. generate_response e info = Inr r
        \<and> sublist fallback r
        \<and> (\<forall>(k, v) \<in> set knowledge_base. \<not> sublist v r)"
    by blast
  from one two show ?thesis by blast
qed

lemma mail_billing_category: "categorize_email mail_billing = Inr ''billing''"
  by code_simp

theorem generate_response_fallback_witness:
  "\<exists>r. generate_response mail_billing info_negative = Inr r
      \<and> sublist fallback r
      \<and> \<not> sublist ''Billing issues are handled by our finance team. Refunds typically process within 5-7 business days after approval.'' r"
proof -
  from generate_response_fallback [of mail_billing info_negative] obtain r where
    r: "generate_response mail_billing info_negative = Inr r" "sublist fallback r"
    and k: "\<forall>(k, v) \<in> set knowledge_base. \<not> sublist v r"
    by blast
  have "(''billing_errors'', ''Billing issues are handled by our finance team. Refunds typically process within 5-7 business days after approval.'') \<in> set knowledge_base"
    by (simp add: knowledge_base_def)
  with k have "\<not> sublist ''Billing issues are handled by our finance team. Refunds typically process within 5-7 business days after approval.'' r"
    by blast
  with r show ?thesis by blast
qed

subsection \<open>The heap and the invariant\<close>

lemma length_siftdown: "length (siftdown heap startpos pos newitem) = length heap"
proof (induction heap startpos pos newitem rule: siftdown.induct)
  case (1 heap startpos pos newitem)
  show ?case
    by (subst siftdown.simps) (simp add: 1 Let_def)
qed

lemma mset_siftdown:
  "pos < length heap \<Longrightarrow>
     mset (siftdown heap startpos pos newitem) = mset (heap[pos := newitem])"
proof (induction heap startpos pos newitem rule: siftdown.induct)
  case (1 heap startpos pos newitem)
  define pp where "pp = (pos - 1) div 2"
  show ?case
  proof (cases "pos > startpos \<and> entry_lt newitem (heap ! pp)")
    case True
    then have lt: "pp < pos" by (simp add: pp_def) arith
    with "1.prems" have pl: "pp < length heap" by simp
    have "siftdown heap startpos pos newitem
            = siftdown (heap[pos := heap ! pp]) startpos pp newitem"
      using True by (subst siftdown.simps) (simp add: Let_def pp_def)
    also have "mset \<dots> = mset ((heap[pos := heap ! pp])[pp := newitem])"
      using True pl "1.IH" [OF _ refl refl] by (simp add: pp_def)
    also have "\<dots> = mset (heap[pos := newitem])"
      using lt pl "1.prems" by (simp add: mset_update nth_list_update)
    finally show ?thesis .
  next
    case False
    then have "siftdown heap startpos pos newitem = heap[pos := newitem]"
      by (subst siftdown.simps) (auto simp: Let_def pp_def)
    then show ?thesis by simp
  qed
qed

lemma length_heappush: "length (heappush heap item) = Suc (length heap)"
  by (simp add: heappush_def length_siftdown)

lemma mset_heappush: "mset (heappush heap item) = add_mset item (mset heap)"
  by (simp add: heappush_def mset_siftdown)

lemma set_heappush: "set (heappush heap item) = insert item (set heap)"
  using mset_heappush [of heap item] by (metis set_mset_add_mset_insert set_mset_mset)


lemma wf_init: "wf init"
  by (simp add: wf_def init_def)

lemma wf_load: "wf s \<Longrightarrow> wf (s\<lparr>emails := es\<rparr>)"
  by (simp add: wf_def)

lemma process_one_wf:
  assumes "wf s" and "process_one sia now email s = Inr s'"
  shows "wf s'"
proof -
  from assms(2) obtain pe u where
    s': "s' = s\<lparr>priority_queue :=
                   heappush (priority_queue s) (- u, email_counter s, length (processed_emails s)),
                 processed_emails := processed_emails s @ [pe],
                 email_counter := email_counter s + 1\<rparr>"
    and u: "urgency_score pe = u"
    by (auto simp: process_one_def Let_def split: prod.splits sum.splits)
  have old: "list_all (\<lambda>(a, c, r). r < length (processed_emails s) \<and> c < email_counter s
                     \<and> a = - urgency_score (processed_emails s ! r)) (priority_queue s)"
    using assms(1) by (simp add: wf_def)
  have fresh: "email_counter s \<notin> set (map (\<lambda>(a, c, r). c) (priority_queue s))"
    using old by (auto simp: list_all_iff)
  have "distinct (map (\<lambda>(a, c, r). c) (priority_queue s'))"
  proof -
    have "mset (map (\<lambda>(a, c, r). c) (priority_queue s'))
            = add_mset (email_counter s) (mset (map (\<lambda>(a, c, r). c) (priority_queue s)))"
      by (simp add: s' mset_heappush)
    also have "\<dots> = mset (email_counter s # map (\<lambda>(a, c, r). c) (priority_queue s))"
      by simp
    finally have "distinct (map (\<lambda>(a, c, r). c) (priority_queue s'))
            = distinct (email_counter s # map (\<lambda>(a, c, r). c) (priority_queue s))"
      by (rule mset_eq_imp_distinct_iff)
    then show ?thesis using fresh assms(1) by (simp add: wf_def)
  qed
  moreover have "list_all (\<lambda>(a, c, r). r < length (processed_emails s') \<and> c < email_counter s'
                     \<and> a = - urgency_score (processed_emails s' ! r)) (priority_queue s')"
    using old u by (auto simp: s' list_all_iff set_heappush nth_append)
  moreover have "length (priority_queue s') = length (processed_emails s')"
    using assms(1) by (simp add: s' wf_def length_heappush)
  ultimately show ?thesis by (simp add: wf_def)
qed

lemma process_loop_wf: "wf s \<Longrightarrow> wf (snd (process_loop sia clock i es s))"
proof (induction es arbitrary: s i)
  case Nil
  then show ?case by simp
next
  case (Cons e es)
  show ?case
  proof (cases "process_one sia (clock i) e s")
    case (Inl err)
    then show ?thesis using Cons.prems by simp
  next
    case (Inr s')
    then have "wf s'" using Cons.prems process_one_wf by blast
    then show ?thesis using Inr Cons.IH by simp
  qed
qed

lemma process_emails_wf: "wf s \<Longrightarrow> wf (snd (process_emails sia clock s))"
proof -
  assume w: "wf s"
  obtain eo s' where l: "process_loop sia clock 0 (filter_emails s) s = (eo, s')"
    by (cases "process_loop sia clock 0 (filter_emails s) s")
  with process_loop_wf [OF w, of sia clock 0 "filter_emails s"] have "wf s'" by simp
  then show ?thesis
    by (cases eo) (simp_all add: process_emails_def Let_def l)
qed

lemma nth_update_cases:
  "(xs[r := v]) ! j = (if j = r \<and> r < length xs then v else xs ! j)"
  by (cases "r < length xs") (auto simp: nth_list_update list_update_beyond not_less)

lemma show_email_detail_shape:
  "(\<exists>res. show_email_detail index ci ri s = (res, s))
   \<or> (\<exists>r x. show_email_detail index ci ri s
          = (Inr r, s\<lparr>processed_emails :=
                         (processed_emails s)[r := (processed_emails s ! r)\<lparr>status := x\<rparr>]\<rparr>))
   \<or> (\<exists>r x. show_email_detail index ci ri s
          = (Inr r, s\<lparr>processed_emails :=
                         (processed_emails s)[r := (processed_emails s ! r)\<lparr>generated_response := x\<rparr>]\<rparr>))"
proof -
  define bad where "bad = (index < 1 \<or> index > int (length (processed_emails s))
                           \<or> nat (index - 1) \<ge> length (priority_refs s))"
  consider (out) "bad"
    | (resolve) "\<not> bad" "py_strip ci = ''1''"
    | (edit) "\<not> bad" "py_strip ci \<noteq> ''1''" "py_strip ci = ''2''" "py_strip ri \<noteq> []"
    | (keep) "\<not> bad" "py_strip ci \<noteq> ''1''" "py_strip ci = ''2'' \<longrightarrow> py_strip ri = []"
    by blast
  then show ?thesis
  proof cases
    case out
    then have "\<exists>res. show_email_detail index ci ri s = (res, s)"
      unfolding bad_def by (auto simp: show_email_detail_def Let_def)
    then show ?thesis by blast
  next
    case resolve
    then have "show_email_detail index ci ri s
          = (Inr (priority_refs s ! nat (index - 1)),
             s\<lparr>processed_emails :=
                 (processed_emails s)[priority_refs s ! nat (index - 1) :=
                    (processed_emails s ! (priority_refs s ! nat (index - 1)))\<lparr>status := Resolved\<rparr>]\<rparr>)"
      unfolding bad_def by (simp add: show_email_detail_def Let_def)
    then show ?thesis by blast
  next
    case edit
    then have "show_email_detail index ci ri s
          = (Inr (priority_refs s ! nat (index - 1)),
             s\<lparr>processed_emails :=
                 (processed_emails s)[priority_refs s ! nat (index - 1) :=
                    (processed_emails s ! (priority_refs s ! nat (index - 1)))
                      \<lparr>generated_response := py_strip ri\<rparr>]\<rparr>)"
      unfolding bad_def by (simp add: show_email_detail_def Let_def)
    then show ?thesis by blast
  next
    case keep
    then have "\<exists>res. show_email_detail index ci ri s = (res, s)"
      unfolding bad_def by (auto simp: show_email_detail_def Let_def)
    then show ?thesis by blast
  qed
qed

lemma show_email_detail_queue:
  "priority_queue (snd (show_email_detail index ci ri s)) = priority_queue s
   \<and> emails (snd (show_email_detail index ci ri s)) = emails s
   \<and> email_counter (snd (show_email_detail index ci ri s)) = email_counter s
   \<and> length (processed_emails (snd (show_email_detail index ci ri s)))
       = length (processed_emails s)"
  using show_email_detail_shape [of index ci ri s]
  by (elim disjE exE) simp_all

lemma show_email_detail_other:
  "fst (show_email_detail index ci ri s) \<noteq> Inr j \<Longrightarrow>
     processed_emails (snd (show_email_detail index ci ri s)) ! j = processed_emails s ! j"
  using show_email_detail_shape [of index ci ri s]
  by (elim disjE exE) (simp_all add: nth_update_cases)

lemma show_email_detail_fields:
  "(processed_emails (snd (show_email_detail index ci ri s)) ! j)
       \<lparr>status := status (processed_emails s ! j),
        generated_response := generated_response (processed_emails s ! j)\<rparr>
     = processed_emails s ! j"
  using show_email_detail_shape [of index ci ri s]
  by (elim disjE exE) (simp_all add: nth_update_cases)

lemma show_email_detail_urgency:
  "urgency_score (processed_emails (snd (show_email_detail index ci ri s)) ! j)
     = urgency_score (processed_emails s ! j)"
  using show_email_detail_shape [of index ci ri s]
  by (elim disjE exE) (simp_all add: nth_update_cases)

lemma show_email_detail_wf: "wf s \<Longrightarrow> wf (snd (show_email_detail index ci ri s))"
  unfolding wf_def by (simp add: show_email_detail_queue show_email_detail_urgency)

lemma reachable_wf: "reachable s \<Longrightarrow> wf s"
  by (induction rule: reachable.induct)
     (simp_all add: wf_init wf_load process_emails_wf show_email_detail_wf)

subsection \<open>The ordered view\<close>

lemma process_one_no_address:
  assumes "re_findall email_pattern (fmt2 (subject m) (body m)) = []"
  shows "\<exists>pe. process_one sia now m s
           = Inr (s\<lparr>priority_queue := heappush (priority_queue s)
                        (- snd (determine_priority sia now m), email_counter s,
                         length (processed_emails s)),
                    processed_emails := processed_emails s @ [pe],
                    email_counter := email_counter s + 1\<rparr>)
         \<and> urgency_score pe = snd (determine_priority sia now m)
         \<and> priority pe = fst (determine_priority sia now m)
         \<and> email_id pe = email_id m \<and> processing_id pe = email_counter s
         \<and> status pe = Pending"
proof -
  obtain c where c: "categorize_email m = Inr c"
    using categorize_email_in_names by blast
  obtain info where i: "extract_information sia m = Inr info"
    using assms by (auto simp: extract_information_def Let_def alternate_comprehension_cases)
  obtain r where r: "generate_response m info = Inr r"
    by (simp add: generate_response_def c Let_def)
  obtain l x where a: "analyze_sentiment sia (fmt2 (subject m) (body m)) = (l, x)"
    by (cases "analyze_sentiment sia (fmt2 (subject m) (body m))")
  obtain p u where d: "determine_priority sia now m = (p, u)"
    by (cases "determine_priority sia now m")
  define pe where "pe =
     \<lparr>sender = sender m, subject = subject m, body = body m,
      sent_date = sent_date m, email_id = email_id m,
      pe_sentiment = l, priority = p, urgency_score = u,
      category = c, extracted_info = info, generated_response = r,
      status = Pending, processing_id = email_counter s\<rparr>"
  show ?thesis
    by (rule exI [of _ pe]) (simp add: process_one_def c i r a d pe_def)
qed


lemma plain_mail_no_address:
  "re_findall email_pattern (fmt2 (subject (plain_mail i d)) (body (plain_mail i d))) = []"
proof -
  have "re_findall email_pattern ''request status page'' = []" by code_simp
  then show ?thesis by (simp add: plain_mail_def fmt2_def)
qed

lemma plain_mail_support: "is_support (plain_mail i d)"
proof -
  have "any_in support_keywords (py_lower ''request'')" by code_simp
  then show ?thesis by (simp add: is_support_def plain_mail_def)
qed

lemma plain_mail_keywords:
  "card {k \<in> set priority_keywords. sublist k (py_lower ''request status page'')} = 0"
proof -
  have "length (filter (\<lambda>k. py_in k (py_lower ''request status page'')) priority_keywords) = 0"
    by code_simp
  with keyword_count_card [of "py_lower ''request status page''"] show ?thesis by simp
qed

lemma plain_mail_urgency:
  "snd (determine_priority sia now (plain_mail i d))
     = spec_sentiment_adjustment (fst (analyze_sentiment sia (py_lower ''request status page'')))
       + spec_recency_bonus (now - d)"
proof -
  have t: "fmt2 (subject (plain_mail i d)) (body (plain_mail i d)) = ''request status page''"
    by (simp add: plain_mail_def fmt2_def)
  show ?thesis
    unfolding determine_priority_eq Let_def t plain_mail_keywords
    by (simp add: plain_mail_def)
qed


lemma process_one_plain:
  assumes "snd (determine_priority sia now (plain_mail i d)) = u"
  shows "\<exists>pe. process_one sia now (plain_mail i d) s
           = Inr (s\<lparr>priority_queue := heappush (priority_queue s)
                        (- u, email_counter s, length (processed_emails s)),
                    processed_emails := processed_emails s @ [pe],
                    email_counter := email_counter s + 1\<rparr>)
         \<and> urgency_score pe = u \<and> email_id pe = i \<and> processing_id pe = email_counter s
         \<and> status pe = Pending"
proof -
  have "email_id (plain_mail i d) = i" by (simp add: plain_mail_def)
  with process_one_no_address [where m = "plain_mail i d" and sia = sia and now = now and s = s,
      OF plain_mail_no_address] assms
  show ?thesis by auto
qed

lemma heappush_three:
  "heappush (heappush (heappush [] (- a, 0, 0)) (- a, Suc 0, Suc 0))
       (- (a + 3), Suc (Suc 0), Suc (Suc 0))
     = [(- (a + 3), 2, 2), (- a, 1, 1), (- a, 0, 0)]"
  by (simp add: heappush_def siftdown.simps)

lemma three_mails_run:
  "\<exists>pe1 pe2 pe3 a.
     process_emails sia (\<lambda>i. now3) (init\<lparr>emails := three_mails\<rparr>)
       = (Inr 3, \<lparr>emails = three_mails, processed_emails = [pe1, pe2, pe3],
                  priority_queue = [(- (a + 3), 2, 2), (- a, 1, 1), (- a, 0, 0)],
                  email_counter = 3\<rparr>)
     \<and> map urgency_score [pe1, pe2, pe3] = [a, a, a + 3]
     \<and> map email_id [pe1, pe2, pe3] = [''email_1'', ''email_2'', ''email_3'']
     \<and> map processing_id [pe1, pe2, pe3] = [0, 1, 2]
     \<and> map status [pe1, pe2, pe3] = [Pending, Pending, Pending]"
proof -
  define a where
    "a = spec_sentiment_adjustment (fst (analyze_sentiment sia (py_lower ''request status page'')))"
  define s0 where "s0 = init\<lparr>emails := three_mails\<rparr>"
  define step where "step = (\<lambda>(s::system) u pe.
     s\<lparr>priority_queue := heappush (priority_queue s)
                        (- u, email_counter s, length (processed_emails s)),
       processed_emails := processed_emails s @ [pe],
       email_counter := email_counter s + 1\<rparr>)"
  have u1: "snd (determine_priority sia now3 (plain_mail i 0)) = a" for i
    by (simp add: plain_mail_urgency a_def spec_recency_bonus_def hour_us_def now3_def)
  have u3: "snd (determine_priority sia now3 (plain_mail i sent3)) = a + 3" for i
    by (simp add: plain_mail_urgency a_def spec_recency_bonus_def hour_us_def sent3_def)
  from process_one_plain [OF u1, of "''email_1''" s0]
  obtain pe1 where
    p1: "process_one sia now3 (plain_mail ''email_1'' 0) s0 = Inr (step s0 a pe1)"
    and e1: "urgency_score pe1 = a" "email_id pe1 = ''email_1''"
      "processing_id pe1 = email_counter s0" "status pe1 = Pending"
    unfolding step_def by blast
  from process_one_plain [OF u1, of "''email_2''" "step s0 a pe1"]
  obtain pe2 where
    p2: "process_one sia now3 (plain_mail ''email_2'' 0) (step s0 a pe1)
           = Inr (step (step s0 a pe1) a pe2)"
    and e2: "urgency_score pe2 = a" "email_id pe2 = ''email_2''"
      "processing_id pe2 = email_counter (step s0 a pe1)" "status pe2 = Pending"
    unfolding step_def by blast
  from process_one_plain [OF u3, of "''email_3''" "step (step s0 a pe1) a pe2"]
  obtain pe3 where
    p3: "process_one sia now3 (plain_mail ''email_3'' sent3)
           (step (step s0 a pe1) a pe2)
           = Inr (step (step (step s0 a pe1) a pe2) (a + 3) pe3)"
    and e3: "urgency_score pe3 = a + 3" "email_id pe3 = ''email_3''"
      "processing_id pe3 = email_counter (step (step s0 a pe1) a pe2)" "status pe3 = Pending"
    unfolding step_def by blast
  define s3 where "s3 = step (step (step s0 a pe1) a pe2) (a + 3) pe3"
  have f: "filter_emails s0 = three_mails"
    by (simp add: filter_emails_def s0_def three_mails_def plain_mail_support)
  have loop: "process_loop sia (\<lambda>i. now3) 0 three_mails s0 = (None, s3)"
    by (simp add: three_mails_def p1 p2 p3 s3_def)
  have run: "process_emails sia (\<lambda>i. now3) s0 = (Inr 3, s3)"
    by (simp add: process_emails_def f loop) (simp add: three_mails_def)
  have pes: "processed_emails s3 = [pe1, pe2, pe3]"
    by (simp add: s3_def step_def s0_def init_def)
  have q: "priority_queue s3 = [(- (a + 3), 2, 2), (- a, 1, 1), (- a, 0, 0)]"
    using heappush_three [of a] by (simp add: s3_def step_def s0_def init_def)
  have ids: "map processing_id [pe1, pe2, pe3] = [0, 1, 2]"
    using e1 e2 e3 by (simp add: step_def s0_def init_def)
  have s3: "s3 = \<lparr>emails = three_mails, processed_emails = [pe1, pe2, pe3],
                  priority_queue = [(- (a + 3), 2, 2), (- a, 1, 1), (- a, 0, 0)],
                  email_counter = 3\<rparr>"
    using pes q by (simp add: s3_def step_def s0_def init_def)
  show ?thesis
    unfolding s0_def [symmetric] run s3
    using ids e1 e2 e3 by (intro exI [of _ pe1] exI [of _ pe2] exI [of _ pe3] exI [of _ a]) simp
qed

text \<open>
  Claim C2. Three support emails with the same subject and body are processed in the order
  \<open>email_1\<close>, \<open>email_2\<close>, \<open>email_3\<close>; the third is ten minutes old, the others more
  than twelve hours. Whatever the analyzer, \<open>email_1\<close> and \<open>email_2\<close> get the same
  urgency score, and the ordered view lists \<open>email_2\<close> before \<open>email_1\<close>: the sort is
  by the first component only, over the list of the heap, in which the push of the third
  entry has moved the first one behind the second.
\<close>

theorem ordered_view_breaks_insertion_order:
  "fst (process_emails sia (\<lambda>i. now3) (init\<lparr>emails := three_mails\<rparr>)) = Inr 3
   \<and> map email_id (processed_emails (snd (process_emails sia (\<lambda>i. now3) (init\<lparr>emails := three_mails\<rparr>))))
       = [''email_1'', ''email_2'', ''email_3'']
   \<and> map processing_id (processed_emails (snd (process_emails sia (\<lambda>i. now3) (init\<lparr>emails := three_mails\<rparr>))))
       = [0, 1, 2]
   \<and> urgency_score (processed_emails (snd (process_emails sia (\<lambda>i. now3) (init\<lparr>emails := three_mails\<rparr>))) ! 0)
       = urgency_score (processed_emails (snd (process_emails sia (\<lambda>i. now3) (init\<lparr>emails := three_mails\<rparr>))) ! 1)
   \<and> map email_id (display_emails None (snd (process_emails sia (\<lambda>i. now3) (init\<lparr>emails := three_mails\<rparr>))))
       = [''email_3'', ''email_2'', ''email_1'']"
proof -
  from three_mails_run [of sia] obtain pe1 pe2 pe3 a where
    run: "process_emails sia (\<lambda>i. now3) (init\<lparr>emails := three_mails\<rparr>)
       = (Inr 3, \<lparr>emails = three_mails, processed_emails = [pe1, pe2, pe3],
                  priority_queue = [(- (a + 3), 2, 2), (- a, 1, 1), (- a, 0, 0)],
                  email_counter = 3\<rparr>)"
    and f: "map urgency_score [pe1, pe2, pe3] = [a, a, a + 3]"
      "map email_id [pe1, pe2, pe3] = [''email_1'', ''email_2'', ''email_3'']"
      "map processing_id [pe1, pe2, pe3] = [0, 1, 2]"
    by (elim exE conjE) (rule that)
  show ?thesis
    unfolding run using f
    by (simp add: display_emails_def priority_emails_def priority_refs_def)
qed

lemma queue3_reachable: "reachable queue3"
proof -
  have "reachable (init\<lparr>emails := emails init @ three_mails\<rparr>)"
    by (rule reachable.load) (rule reachable.start)
  then have "reachable (init\<lparr>emails := three_mails\<rparr>)"
    by (simp add: init_def)
  then show ?thesis
    unfolding queue3_def by (rule reachable.process)
qed

lemma queue3_facts:
  "priority_refs queue3 = [2, 1, 0] \<and> length (processed_emails queue3) = 3
   \<and> map status (processed_emails queue3) = [Pending, Pending, Pending]"
proof -
  from three_mails_run [of "\<lambda>t. 0"] obtain pe1 pe2 pe3 a where
    run: "process_emails (\<lambda>t. 0) (\<lambda>i. now3) (init\<lparr>emails := three_mails\<rparr>)
       = (Inr 3, \<lparr>emails = three_mails, processed_emails = [pe1, pe2, pe3],
                  priority_queue = [(- (a + 3), 2, 2), (- a, 1, 1), (- a, 0, 0)],
                  email_counter = 3\<rparr>)"
    and f: "map status [pe1, pe2, pe3] = [Pending, Pending, Pending]"
    by (elim exE conjE) (rule that)
  show ?thesis
    unfolding queue3_def run using f by (simp add: priority_refs_def)
qed

lemma priority_refs_valid:
  assumes "wf s" and "k < length (priority_refs s)"
  shows "priority_refs s ! k < length (processed_emails s)"
proof -
  have "priority_refs s ! k \<in> set (priority_refs s)"
    using assms(2) by (rule nth_mem)
  then obtain a c where "(a, c, priority_refs s ! k) \<in> set (priority_queue s)"
    by (auto simp: priority_refs_def)
  with assms(1) show ?thesis
    by (auto simp: wf_def list_all_iff)
qed

lemma length_priority_refs: "length (priority_refs s) = length (priority_queue s)"
  by (simp add: priority_refs_def)

text \<open>
  Claim C7. In a reachable state, \<open>show_email_detail\<close> with an index below 1 or above the
  number of processed emails gives \<open>OutOfRange\<close> and leaves the state as it is; with an
  index in the range it shows the email at that position, counted from 1, of the ordered
  view.
\<close>

theorem show_email_detail_range:
  assumes "reachable s"
  shows "(index < 1 \<or> index > int (length (processed_emails s))
            \<longrightarrow> show_email_detail index ci ri s = (Inl OutOfRange, s))
       \<and> (1 \<le> index \<and> index \<le> int (length (processed_emails s))
            \<longrightarrow> (\<exists>r. fst (show_email_detail index ci ri s) = Inr r
                  \<and> r = priority_refs s ! nat (index - 1)
                  \<and> r < length (processed_emails s)
                  \<and> processed_emails s ! r = priority_emails s ! nat (index - 1)))"
proof -
  have w: "wf s" using assms by (rule reachable_wf)
  then have len: "length (priority_refs s) = length (processed_emails s)"
    by (simp add: length_priority_refs wf_def)
  have out: "show_email_detail index ci ri s = (Inl OutOfRange, s)"
    if "index < 1 \<or> index > int (length (processed_emails s))"
    using that by (simp add: show_email_detail_def)
  have inside: "\<exists>r. fst (show_email_detail index ci ri s) = Inr r
                  \<and> r = priority_refs s ! nat (index - 1)
                  \<and> r < length (processed_emails s)
                  \<and> processed_emails s ! r = priority_emails s ! nat (index - 1)"
    if "1 \<le> index \<and> index \<le> int (length (processed_emails s))"
  proof -
    from that have k: "nat (index - 1) < length (priority_refs s)"
      unfolding len by linarith
    have "fst (show_email_detail index ci ri s) = Inr (priority_refs s ! nat (index - 1))"
      using that k by (simp add: show_email_detail_def Let_def)
    moreover have "priority_refs s ! nat (index - 1) < length (processed_emails s)"
      using w k by (rule priority_refs_valid)
    moreover have "processed_emails s ! (priority_refs s ! nat (index - 1))
                     = priority_emails s ! nat (index - 1)"
      using k by (simp add: priority_emails_def)
    ultimately show ?thesis by blast
  qed
  from out inside show ?thesis by blast
qed

theorem show_email_detail_range_witness:
  "show_email_detail 4 ''1'' [] queue3 = (Inl OutOfRange, queue3)
   \<and> show_email_detail 0 ''2'' ''ok'' queue3 = (Inl OutOfRange, queue3)
   \<and> fst (show_email_detail 1 [] [] queue3) = Inr 2"
proof -
  note t = show_email_detail_range [OF queue3_reachable]
  have l: "length (processed_emails queue3) = 3" and r: "priority_refs queue3 = [2, 1, 0]"
    using queue3_facts by simp_all
  have "show_email_detail 4 ''1'' [] queue3 = (Inl OutOfRange, queue3)"
    using t [of 4 "''1''" "[]"] by (simp add: l)
  moreover have "show_email_detail 0 ''2'' ''ok'' queue3 = (Inl OutOfRange, queue3)"
    using t [of 0 "''2''" "''ok''"] by (simp add: l)
  moreover have "fst (show_email_detail 1 [] [] queue3) = Inr 2"
    using t [of 1 "[]" "[]"] by (simp add: l r)
  ultimately show ?thesis by blast
qed

text \<open>
  Claim C3. Whatever is entered in \<open>show_email_detail\<close>, the queue and the order of the
  ordered view stay as they are; only the email shown can change, and only in its status
  and its response; the ordered view holds the same emails in the same order, up to
  these two fields.
\<close>

theorem show_email_detail_frame:
  "priority_queue (snd (show_email_detail index ci ri s)) = priority_queue s
   \<and> priority_refs (snd (show_email_detail index ci ri s)) = priority_refs s
   \<and> emails (snd (show_email_detail index ci ri s)) = emails s
   \<and> email_counter (snd (show_email_detail index ci ri s)) = email_counter s
   \<and> length (processed_emails (snd (show_email_detail index ci ri s)))
       = length (processed_emails s)
   \<and> (\<forall>j. fst (show_email_detail index ci ri s) \<noteq> Inr j \<longrightarrow>
          processed_emails (snd (show_email_detail index ci ri s)) ! j = processed_emails s ! j)
   \<and> (\<forall>j. (processed_emails (snd (show_email_detail index ci ri s)) ! j)
              \<lparr>status := status (processed_emails s ! j),
               generated_response := generated_response (processed_emails s ! j)\<rparr>
            = processed_emails s ! j)
   \<and> map (\<lambda>e. e\<lparr>status := Pending, generated_response := []\<rparr>)
         (priority_emails (snd (show_email_detail index ci ri s)))
       = map (\<lambda>e. e\<lparr>status := Pending, generated_response := []\<rparr>) (priority_emails s)"
proof -
  let ?s' = "snd (show_email_detail index ci ri s)"
  have refs: "priority_refs ?s' = priority_refs s"
    by (simp add: priority_refs_def show_email_detail_queue)
  have blank: "(processed_emails ?s' ! j)\<lparr>status := Pending, generated_response := []\<rparr>
                 = (processed_emails s ! j)\<lparr>status := Pending, generated_response := []\<rparr>" for j
  proof -
    have "((processed_emails ?s' ! j)
              \<lparr>status := status (processed_emails s ! j),
               generated_response := generated_response (processed_emails s ! j)\<rparr>)
             \<lparr>status := Pending, generated_response := []\<rparr>
           = (processed_emails s ! j)\<lparr>status := Pending, generated_response := []\<rparr>"
      by (simp only: show_email_detail_fields)
    then show ?thesis by simp
  qed
  have view: "map (\<lambda>e. e\<lparr>status := Pending, generated_response := []\<rparr>) (priority_emails ?s')
       = map (\<lambda>e. e\<lparr>status := Pending, generated_response := []\<rparr>) (priority_emails s)"
    by (simp add: priority_emails_def refs blank)
  show ?thesis
    using refs view show_email_detail_queue show_email_detail_other show_email_detail_fields
    by blast
qed


theorem show_email_detail_frame_witness:
  "priority_refs (snd (show_email_detail 2 ''1'' [] queue3)) = priority_refs queue3
   \<and> map status (processed_emails (snd (show_email_detail 2 ''1'' [] queue3)))
       = [Pending, Resolved, Pending]"
proof -
  have r: "priority_refs (snd (show_email_detail 2 ''1'' [] queue3)) = priority_refs queue3"
    using show_email_detail_frame [of 2 "''1''" "[]" queue3] by blast
  obtain p1 p2 p3 where p: "processed_emails queue3 = [p1, p2, p3]"
    and st: "status p1 = Pending" "status p2 = Pending" "status p3 = Pending"
    using queue3_facts by (auto simp: length_Suc_conv eval_nat_numeral)
  have one: "py_strip ''1'' = ''1''" by code_simp
  have "processed_emails (snd (show_email_detail 2 ''1'' [] queue3))
          = [p1, p2\<lparr>status := Resolved\<rparr>, p3]"
    using queue3_facts by (simp add: show_email_detail_def Let_def one p)
  with r st show ?thesis by simp
qed

subsection \<open>Further properties of the model\<close>

text \<open>\<^verbatim>\<open>re.findall\<close> finds something exactly when the pattern matches at some position of
  the text.\<close>

lemma findall_nonempty_iff:
  "findall p prev s \<noteq> []
     \<longleftrightarrow> (\<exists>i \<le> length s. rmatch p (if i = 0 then prev else Some (s ! (i - 1))) (drop i s) \<noteq> None)"
proof (induction p prev s rule: findall.induct)
  case (1 p prev)
  show ?case by (auto split: option.splits)
next
  case (2 p prev x xs)
  show ?case
  proof (cases "rmatch p prev (x # xs)")
    case None
    have "(\<exists>i \<le> length (x # xs).
             rmatch p (if i = 0 then prev else Some ((x # xs) ! (i - 1))) (drop i (x # xs)) \<noteq> None)
          \<longleftrightarrow> (\<exists>j \<le> length xs.
             rmatch p (if j = 0 then Some x else Some (xs ! (j - 1))) (drop j xs) \<noteq> None)"
      (is "?L \<longleftrightarrow> ?R")
    proof
      assume ?L
      then obtain i where i: "i \<le> length (x # xs)"
        "rmatch p (if i = 0 then prev else Some ((x # xs) ! (i - 1))) (drop i (x # xs)) \<noteq> None"
        by blast
      with None obtain j where j: "i = Suc j" by (cases i) auto
      with i have "j \<le> length xs"
        "rmatch p (if j = 0 then Some x else Some (xs ! (j - 1))) (drop j xs) \<noteq> None"
        by (auto simp: nth_Cons split: nat.splits if_splits)
      then show ?R by blast
    next
      assume ?R
      then obtain j where j: "j \<le> length xs"
        "rmatch p (if j = 0 then Some x else Some (xs ! (j - 1))) (drop j xs) \<noteq> None"
        by blast
      then have "Suc j \<le> length (x # xs)"
        "rmatch p (if Suc j = 0 then prev else Some ((x # xs) ! (Suc j - 1))) (drop (Suc j) (x # xs)) \<noteq> None"
        by (auto simp: nth_Cons split: nat.splits if_splits)
      then show ?L by blast
    qed
    with None "2.IH"(1) show ?thesis by simp
  next
    case (Some k)
    then have "rmatch p (if (0::nat) = 0 then prev else Some ((x # xs) ! (0 - 1))) (drop 0 (x # xs)) \<noteq> None"
      by simp
    then have "\<exists>i \<le> length (x # xs).
             rmatch p (if i = 0 then prev else Some ((x # xs) ! (i - 1))) (drop i (x # xs)) \<noteq> None"
      by blast
    moreover have "findall p prev (x # xs) \<noteq> []"
      using Some by (cases k) simp_all
    ultimately show ?thesis by blast
  qed
qed

lemma re_findall_nonempty_iff:
  "re_findall p s \<noteq> []
     \<longleftrightarrow> (\<exists>i \<le> length s. rmatch p (if i = 0 then None else Some (s ! (i - 1))) (drop i s) \<noteq> None)"
  unfolding re_findall_def by (rule findall_nonempty_iff)

text \<open>In a state that satisfies the invariant, the ordered view is in descending order of
  the urgency score, with or without a priority filter.\<close>

lemma ordered_view_descending:
  assumes "wf s"
  shows "sorted_wrt (\<lambda>x y. urgency_score x \<ge> urgency_score y) (priority_emails s)"
proof -
  define q where "q = sort_key fst (priority_queue s)"
  have "sorted (map fst q)" unfolding q_def by (rule sorted_sort_key)
  then have a: "sorted_wrt (\<lambda>x y. fst x \<le> fst y) q"
    by (simp add: sorted_map)
  have b: "fst x = - urgency_score (processed_emails s ! snd (snd x))" if "x \<in> set q" for x
    using that assms by (auto simp: q_def wf_def list_all_iff)
  have "sorted_wrt (\<lambda>x y. urgency_score (processed_emails s ! snd (snd x))
                         \<ge> urgency_score (processed_emails s ! snd (snd y))) q"
    using a by (rule sorted_wrt_mono_rel [rotated]) (simp add: b)
  then show ?thesis
    by (simp add: priority_emails_def priority_refs_def q_def [symmetric] sorted_wrt_map
          case_prod_beta)
qed

lemma display_emails_descending:
  assumes "wf s"
  shows "sorted_wrt (\<lambda>x y. urgency_score x \<ge> urgency_score y) (display_emails pf s)"
  using ordered_view_descending [OF assms]
  by (auto simp: display_emails_def sorted_wrt_filter split: option.splits)

text \<open>A batch whose support emails contain no address match is processed completely: the
  count of the support emails is returned, they are appended to the processed emails in
  their order, and the queue gains one entry for each of them.\<close>

lemma process_loop_complete:
  assumes "\<forall>m \<in> set es. re_findall email_pattern (fmt2 (subject m) (body m)) = []"
  shows "fst (process_loop sia clock i es s) = None
     \<and> emails (snd (process_loop sia clock i es s)) = emails s
     \<and> email_counter (snd (process_loop sia clock i es s)) = email_counter s + length es
     \<and> take (length (processed_emails s)) (processed_emails (snd (process_loop sia clock i es s)))
         = processed_emails s
     \<and> map email_id (processed_emails (snd (process_loop sia clock i es s)))
         = map email_id (processed_emails s) @ map email_id es
     \<and> image_mset (\<lambda>(a, c, r). r) (mset (priority_queue (snd (process_loop sia clock i es s))))
         = image_mset (\<lambda>(a, c, r). r) (mset (priority_queue s))
           + mset [length (processed_emails s) ..< length (processed_emails s) + length es]"
  using assms
proof (induction es arbitrary: s i)
  case Nil
  show ?case by simp
next
  case (Cons m es)
  from Cons.prems have na: "re_findall email_pattern (fmt2 (subject m) (body m)) = []"
    and rest: "\<forall>m \<in> set es. re_findall email_pattern (fmt2 (subject m) (body m)) = []"
    by simp_all
  define s1 where "s1 = (\<lambda>pe. s\<lparr>priority_queue := heappush (priority_queue s)
                        (- snd (determine_priority sia (clock i) m), email_counter s,
                         length (processed_emails s)),
                    processed_emails := processed_emails s @ [pe],
                    email_counter := email_counter s + 1\<rparr>)"
  from process_one_no_address [OF na, of sia "clock i" s] obtain pe where
    p: "process_one sia (clock i) m s = Inr (s1 pe)" and id: "email_id pe = email_id m"
    unfolding s1_def by blast
  have loop: "process_loop sia clock i (m # es) s = process_loop sia clock (Suc i) es (s1 pe)"
    by (simp add: p)
  have l: "length (processed_emails (s1 pe)) = Suc (length (processed_emails s))"
    by (simp add: s1_def)
  have u: "[length (processed_emails s) ..< length (processed_emails s) + length (m # es)]
         = length (processed_emails s)
           # [Suc (length (processed_emails s)) ..< Suc (length (processed_emails s)) + length es]"
    by (subst upt_conv_Cons) simp_all
  note IH = Cons.IH [OF rest, of "Suc i" "s1 pe"]
  have t: "take (length (processed_emails s)) (processed_emails (snd (process_loop sia clock (Suc i) es (s1 pe))))
         = processed_emails s"
  proof -
    have "take (length (processed_emails s)) (take (length (processed_emails (s1 pe)))
            (processed_emails (snd (process_loop sia clock (Suc i) es (s1 pe)))))
          = take (length (processed_emails s)) (processed_emails (s1 pe))"
      using IH by simp
    then show ?thesis by (simp add: l s1_def min_def)
  qed
  show ?case
    unfolding loop u using IH t
    by (simp add: l) (simp add: s1_def id mset_heappush)
qed

lemma process_emails_complete:
  assumes "\<forall>m \<in> set (filter_emails s). re_findall email_pattern (fmt2 (subject m) (body m)) = []"
  shows "fst (process_emails sia clock s) = Inr (length (filter is_support (emails s)))
     \<and> map email_id (processed_emails (snd (process_emails sia clock s)))
         = map email_id (processed_emails s) @ map email_id (filter is_support (emails s))
     \<and> image_mset (\<lambda>(a, c, r). r) (mset (priority_queue (snd (process_emails sia clock s))))
         = image_mset (\<lambda>(a, c, r). r) (mset (priority_queue s))
           + mset [length (processed_emails s)
                    ..< length (processed_emails s) + length (filter is_support (emails s))]"
proof -
  obtain eo s' where l: "process_loop sia clock 0 (filter_emails s) s = (eo, s')"
    by (cases "process_loop sia clock 0 (filter_emails s) s")
  from process_loop_complete [OF assms, of sia clock 0 s] l
  show ?thesis
    by (simp add: process_emails_def Let_def l) (simp add: filter_emails_def)
qed

end
